theory Spec2Isabelle
  imports Main "HOL-Library.Sublist"
begin

section \<open>Data model (types.ts)\<close>

text \<open>
  \<^verbatim>\<open>ExtractedData\<close> is the three-field record the extraction service is declared to
  return; \<^verbatim>\<open>Lead\<close> has the same three fields and four more, so it is modelled as an
  extension of \<^verbatim>\<open>ExtractedData\<close>. The field \<^verbatim>\<open>id\<close> is written \<open>id'\<close> because
  \<open>id\<close> is the identity function of HOL. JavaScript strings are modelled as
  \<^typ>\<open>string\<close>; the only operation the lead merger applies to them is equality.
\<close>

record ExtractedData =
  fullName :: string
  phoneNumber :: string
  outreachMessage :: string

record Lead = ExtractedData +
  id' :: string
  sourceFile :: string
  isDuplicate :: bool
  extractedAt :: string

datatype ProcessingStatus = IDLE | PROCESSING | SUCCESS | ERROR

text \<open>
  A thrown or rejected \<^verbatim>\<open>new Error(message)\<close>; \<^verbatim>\<open>err.message || fallback\<close> reads it.
\<close>

datatype js_error = Error string

fun messageOr :: "js_error \<Rightarrow> string \<Rightarrow> string" where
  "messageOr (Error message) fallback = (if message = [] then fallback else message)"

section \<open>String operations of the runtime\<close>

text \<open>
  Strings are byte lists holding the UTF-8 form of the JavaScript string. The patterns
  searched for below are ASCII, and an ASCII byte never occurs inside a multi-byte
  character, so searching bytes and searching characters agree.
\<close>

definition startsWith :: "string \<Rightarrow> string \<Rightarrow> bool" where
  "startsWith s searchString = prefix searchString s"

definition endsWith :: "string \<Rightarrow> string \<Rightarrow> bool" where
  "endsWith s searchString = suffix searchString s"

text \<open>\<^verbatim>\<open>s.split(sep)\<close> for a one-character separator: never an empty array.\<close>

fun splitOn :: "char \<Rightarrow> string \<Rightarrow> string list" where
  "splitOn sep [] = [[]]"
| "splitOn sep (c # cs) =
     (if c = sep then [] # splitOn sep cs
      else (case splitOn sep cs of
              [] \<Rightarrow> [[c]]
            | piece # pieces \<Rightarrow> (c # piece) # pieces))"

text \<open>\<^verbatim>\<open>xs[i]\<close>: \<open>None\<close> is \<^verbatim>\<open>undefined\<close>, the value read past the end of an array.\<close>

definition index :: "'a list \<Rightarrow> nat \<Rightarrow> 'a option" where
  "index xs i = (if i < length xs then Some (xs ! i) else None)"

text \<open>\<^verbatim>\<open>xs.join(sep)\<close>.\<close>

fun join :: "string \<Rightarrow> string list \<Rightarrow> string" where
  "join sep [] = []"
| "join sep [x] = x"
| "join sep (x # y # ys) = x @ sep @ join sep (y # ys)"

text \<open>
  \<^verbatim>\<open>s.replace(/pat/g, '')\<close> for a pattern without metacharacters: every match, found
  from the left and not overlapping the one before, is removed.
\<close>

function removeAll :: "string \<Rightarrow> string \<Rightarrow> string" where
  "removeAll pat [] = []"
| "removeAll pat (c # cs) =
     (if pat \<noteq> [] \<and> prefix pat (c # cs)
      then removeAll pat (drop (length pat) (c # cs))
      else c # removeAll pat cs)"
  by pat_completeness auto
termination
  by (relation "measure (\<lambda>(pat, s). length s)") auto

text \<open>
  The white space and line terminators that \<^verbatim>\<open>trim\<close> strips, in UTF-8: U+0009 to
  U+000D, U+0020, U+00A0, U+1680, U+2000 to U+200A, U+2028, U+2029, U+202F, U+205F,
  U+3000 and U+FEFF.
\<close>

definition whiteSpace :: "string list" where
  "whiteSpace =
     [[CHR 0x09], [CHR 0x0A], [CHR 0x0B], [CHR 0x0C], [CHR 0x0D], [CHR 0x20],
      [CHR 0xC2, CHR 0xA0],
      [CHR 0xE1, CHR 0x9A, CHR 0x80],
      [CHR 0xE2, CHR 0x80, CHR 0x80], [CHR 0xE2, CHR 0x80, CHR 0x81],
      [CHR 0xE2, CHR 0x80, CHR 0x82], [CHR 0xE2, CHR 0x80, CHR 0x83],
      [CHR 0xE2, CHR 0x80, CHR 0x84], [CHR 0xE2, CHR 0x80, CHR 0x85],
      [CHR 0xE2, CHR 0x80, CHR 0x86], [CHR 0xE2, CHR 0x80, CHR 0x87],
      [CHR 0xE2, CHR 0x80, CHR 0x88], [CHR 0xE2, CHR 0x80, CHR 0x89],
      [CHR 0xE2, CHR 0x80, CHR 0x8A],
      [CHR 0xE2, CHR 0x80, CHR 0xA8], [CHR 0xE2, CHR 0x80, CHR 0xA9],
      [CHR 0xE2, CHR 0x80, CHR 0xAF],
      [CHR 0xE2, CHR 0x81, CHR 0x9F],
      [CHR 0xE3, CHR 0x80, CHR 0x80],
      [CHR 0xEF, CHR 0xBB, CHR 0xBF]]"

function trimStart :: "string \<Rightarrow> string" where
  "trimStart s =
     (case find (\<lambda>w. w \<noteq> [] \<and> prefix w s) whiteSpace of
        None \<Rightarrow> s
      | Some w \<Rightarrow> trimStart (drop (length w) s))"
  by pat_completeness auto
termination
proof (relation "measure length")
  show "wf (measure length)" by simp
next
  fix s w :: string
  assume "find (\<lambda>w. w \<noteq> [] \<and> prefix w s) whiteSpace = Some w"
  then have "w \<noteq> []" and "prefix w s"
    by (auto simp: find_Some_iff)
  then show "(drop (length w) s, s) \<in> measure length"
    by (auto simp: prefix_def)
qed

function trimEnd :: "string \<Rightarrow> string" where
  "trimEnd s =
     (case find (\<lambda>w. w \<noteq> [] \<and> suffix w s) whiteSpace of
        None \<Rightarrow> s
      | Some w \<Rightarrow> trimEnd (take (length s - length w) s))"
  by pat_completeness auto
termination
proof (relation "measure length")
  show "wf (measure length)" by simp
next
  fix s w :: string
  assume "find (\<lambda>w. w \<noteq> [] \<and> suffix w s) whiteSpace = Some w"
  then have "w \<noteq> []" and "suffix w s"
    by (auto simp: find_Some_iff)
  then show "(take (length s - length w) s, s) \<in> measure length"
    by (auto simp: suffix_def)
qed

definition trim :: "string \<Rightarrow> string" where
  "trim s = trimEnd (trimStart s)"

section \<open>File decoder (\<^verbatim>\<open>readFile\<close>)\<close>

text \<open>
  A \<^verbatim>\<open>File\<close> with its name and declared media type (\<^verbatim>\<open>file.type\<close>, written
  \<open>type'\<close>), and what a \<^verbatim>\<open>FileReader\<close> delivers for it: \<open>Some result\<close> when
  \<^verbatim>\<open>onload\<close> fires with \<^verbatim>\<open>reader.result\<close>, \<open>None\<close> when \<^verbatim>\<open>onerror\<close> fires.
\<close>

record File =
  name :: string
  type' :: string
  readAsDataURL :: "string option"
  readAsText :: "string option"

text \<open>
  \<^verbatim>\<open>readFile\<close>: \<open>Inl\<close> is the rejection of the promise, \<open>Inr\<close> the resolved
  \<^verbatim>\<open>{ content, mimeType }\<close>. The content of an image is
  \<^verbatim>\<open>result.split(',')[1]\<close>, which is \<^verbatim>\<open>undefined\<close> (\<open>None\<close>) for a result without a
  comma.
\<close>

definition readFile :: "File \<Rightarrow> js_error + (string option \<times> string)" where
  "readFile file =
     (if startsWith (type' file) ''image/'' then
        (case readAsDataURL file of
           None \<Rightarrow> Inl (Error (''Failed to read file: '' @ name file))
         | Some result \<Rightarrow> Inr (index (splitOn CHR '','' result) 1, type' file))
      else if type' file = ''text/csv'' \<or> type' file = ''text/plain''
              \<or> endsWith (name file) ''.csv'' \<or> endsWith (name file) ''.txt'' then
        (case readAsText file of
           None \<Rightarrow> Inl (Error (''Failed to read file: '' @ name file))
         | Some result \<Rightarrow> Inr (Some result, ''text/plain''))
      else Inl (Error (''Unsupported file type: '' @ name file)))"

text \<open>The alphabet of the base64 text that \<^verbatim>\<open>readAsDataURL\<close> puts after the comma.\<close>

definition base64Alphabet :: string where
  "base64Alphabet =
     ''ABCDEFGHIJKLMNOPQRSTUVWXYZabcdefghijklmnopqrstuvwxyz0123456789+/=''"

section \<open>Extraction gateway (geminiService.ts)\<close>

text \<open>
  The values \<^verbatim>\<open>JSON.parse\<close> returns. An object is the list of its properties, each
  key once. Numbers are IEEE doubles; nothing here computes with them, so their type is
  left abstract.
\<close>

typedecl double

datatype json =
    JNull
  | JBool bool
  | JNumber double
  | JString string
  | JArray "json list"
  | JObject "(string \<times> json) list"

text \<open>
  \<^verbatim>\<open>RESPONSE_SCHEMA\<close>: an array of objects whose properties \<^verbatim>\<open>fullName\<close>,
  \<^verbatim>\<open>phoneNumber\<close> and \<^verbatim>\<open>outreachMessage\<close> are strings, all three required.
\<close>

definition required :: "string list" where
  "required = [''fullName'', ''phoneNumber'', ''outreachMessage'']"

fun hasStringProperty :: "json \<Rightarrow> string \<Rightarrow> bool" where
  "hasStringProperty (JObject properties) key =
     (case map_of properties key of Some (JString v) \<Rightarrow> True | _ \<Rightarrow> False)"
| "hasStringProperty _ key = False"

fun conformsToSchema :: "json \<Rightarrow> bool" where
  "conformsToSchema (JArray items) =
     list_all (\<lambda>item. list_all (hasStringProperty item) required) items"
| "conformsToSchema _ = False"

text \<open>
  The outcome of \<^verbatim>\<open>await ai.models.generateContent(...)\<close>: the call rejects, or it
  resolves with a response whose \<^verbatim>\<open>text\<close> is a string or \<^verbatim>\<open>undefined\<close>.
\<close>

datatype generateContent = Rejected | Response "string option"

definition cleanJsonOutput :: "string \<Rightarrow> string" where
  "cleanJsonOutput text =
     (if text = [] then ''[]''
      else trim (removeAll ''```'' (removeAll ''```json'' text)))"

definition extractionFailed :: string where
  "extractionFailed =
     ''Failed to extract data. The file might be unclear or the AI could not find valid leads.''"

text \<open>
  \<^verbatim>\<open>extractLeadsFromFile\<close>, from the response on (lines 150 to 163). The request built
  from the arguments (lines 109 to 148) reaches the result only through the response of the
  service, which is the parameter \<open>response\<close>. \<^verbatim>\<open>JSON.parse\<close> is the parameter
  \<open>JSON_parse\<close>, \<open>None\<close> standing for its \<^verbatim>\<open>SyntaxError\<close>. The parsed value is
  returned under the cast \<^verbatim>\<open>as ExtractedData[]\<close>, which does nothing at run time.
\<close>

definition extractLeadsFromFile ::
    "(string \<Rightarrow> json option) \<Rightarrow> generateContent \<Rightarrow> js_error + json" where
  "extractLeadsFromFile JSON_parse response =
     (case response of
        Rejected \<Rightarrow> Inl (Error extractionFailed)
      | Response textOutput \<Rightarrow>
          (case textOutput of
             None \<Rightarrow> Inr (JArray [])
           | Some text \<Rightarrow>
               if text = [] then Inr (JArray [])
               else (case JSON_parse (cleanJsonOutput text) of
                       None \<Rightarrow> Inl (Error extractionFailed)
                     | Some parsedData \<Rightarrow> Inr parsedData)))"


section \<open>Lead merger (the \<^verbatim>\<open>setLeads\<close> updater of \<^verbatim>\<open>processFiles\<close>)\<close>

text \<open>
  \<^verbatim>\<open>newLeadsAccumulator.map(lead => ...)\<close> with the mutable set \<^verbatim>\<open>existingPhones\<close>
  threaded through the walk: a lead whose phone number is in the set is copied with
  \<^verbatim>\<open>isDuplicate: true\<close>, any other lead is copied with \<^verbatim>\<open>isDuplicate: false\<close> and
  its phone number is added to the set.
\<close>

fun processedBatch :: "string set \<Rightarrow> Lead list \<Rightarrow> Lead list" where
  "processedBatch existingPhones [] = []"
| "processedBatch existingPhones (lead # rest) =
     (if phoneNumber lead \<in> existingPhones
      then lead\<lparr>isDuplicate := True\<rparr> # processedBatch existingPhones rest
      else lead\<lparr>isDuplicate := False\<rparr>
             # processedBatch (insert (phoneNumber lead) existingPhones) rest)"

text \<open>
  The updater itself: \<^verbatim>\<open>prevLeads => [...processedBatch, ...prevLeads]\<close>, where
  \<^verbatim>\<open>existingPhones\<close> starts as \<^verbatim>\<open>new Set(prevLeads.map(l => l.phoneNumber))\<close>.
\<close>

definition mergeLeads :: "Lead list \<Rightarrow> Lead list \<Rightarrow> Lead list" where
  "mergeLeads prevLeads newLeadsAccumulator =
     (let existingPhones = set (map phoneNumber prevLeads)
      in processedBatch existingPhones newLeadsAccumulator @ prevLeads)"

text \<open>The statistics shown above the table (App, lines 19 to 21).\<close>

definition totalLeads :: "Lead list \<Rightarrow> int" where
  "totalLeads leads = int (length leads)"

definition duplicateCount :: "Lead list \<Rightarrow> int" where
  "duplicateCount leads = int (length (filter isDuplicate leads))"

definition newLeads :: "Lead list \<Rightarrow> int" where
  "newLeads leads = totalLeads leads - duplicateCount leads"

text \<open>
  The lead history after a sequence of successful batches, oldest batch first, starting
  from \<^verbatim>\<open>useState<Lead[]>([])\<close>: every batch goes through the updater once.
\<close>

definition history :: "Lead list list \<Rightarrow> Lead list" where
  "history batches = foldl mergeLeads [] batches"

text \<open>
  The block of leads that the \<open>k\<close>-th merge put in front of the history, and the same
  leads listed in the order in which they were merged (oldest batch first, each batch in
  its processed order).
\<close>

definition mergedBlock :: "Lead list list \<Rightarrow> nat \<Rightarrow> Lead list" where
  "mergedBlock batches k = take (length (batches ! k)) (history (take (Suc k) batches))"

definition chronological :: "Lead list list \<Rightarrow> Lead list" where
  "chronological batches = concat (map (mergedBlock batches) [0..<length batches])"

section \<open>Batch processor (\<^verbatim>\<open>processFiles\<close>)\<close>

text \<open>
  What the surroundings contribute to one run. \<open>gateway env i\<close> is the outcome of the call
  of \<^verbatim>\<open>extractLeadsFromFile\<close> made for the file at position \<open>i\<close>, at the type the
  function declares (\<^verbatim>\<open>Promise<ExtractedData[]>\<close>); \<open>randomUUID env i j\<close> and
  \<open>nowISO env i j\<close> are the values of \<^verbatim>\<open>crypto.randomUUID()\<close> and
  \<^verbatim>\<open>new Date().toISOString()\<close> drawn for record \<open>j\<close> of that file;
  \<open>completionOrder env\<close> lists the positions of the files in the order in which their
  asynchronous callbacks finish.
\<close>

record Env =
  gateway :: "nat \<Rightarrow> string option \<Rightarrow> string \<Rightarrow> string \<Rightarrow> string
                \<Rightarrow> js_error + ExtractedData list"
  randomUUID :: "nat \<Rightarrow> nat \<Rightarrow> string"
  nowISO :: "nat \<Rightarrow> nat \<Rightarrow> string"
  completionOrder :: "nat list"

text \<open>What a run does to the outside: files handed to \<^verbatim>\<open>readFile\<close>, gateway calls.\<close>

datatype effect =
    Decode string
  | GatewayCall nat "string option" string string string

text \<open>The object literal of lines 82 to 90.\<close>

definition toLead :: "string \<Rightarrow> string \<Rightarrow> string \<Rightarrow> ExtractedData \<Rightarrow> Lead" where
  "toLead uuid fileName now item =
     \<lparr>fullName = fullName item, phoneNumber = phoneNumber item,
      outreachMessage = outreachMessage item,
      id' = uuid, sourceFile = fileName, isDuplicate = False, extractedAt = now\<rparr>"

text \<open>
  The callback of \<^verbatim>\<open>fileArray.map\<close> for the file at position \<open>i\<close>. \<open>Inl entry\<close> is the
  \<^verbatim>\<open>catch\<close> branch, which pushes \<open>entry\<close> onto \<^verbatim>\<open>errors\<close> and returns \<^verbatim>\<open>[]\<close>;
  \<open>Inr batch\<close> is the value returned by the \<^verbatim>\<open>try\<close> block.
\<close>

definition processFile ::
    "Env \<Rightarrow> string \<Rightarrow> string \<Rightarrow> nat \<Rightarrow> File \<Rightarrow> effect list \<times> (string + Lead list)" where
  "processFile env senderName companyName i file =
     (case readFile file of
        Inl err \<Rightarrow>
          ([Decode (name file)], Inl (name file @ '': '' @ messageOr err ''Unknown error''))
      | Inr (content, mimeType) \<Rightarrow>
          ([Decode (name file), GatewayCall i content mimeType senderName companyName],
           (case gateway env i content mimeType senderName companyName of
              Inl err \<Rightarrow> Inl (name file @ '': '' @ messageOr err ''Unknown error'')
            | Inr extractedData \<Rightarrow>
                if length extractedData = 0 then Inr []
                else Inr (map (\<lambda>(j, item).
                            toLead (randomUUID env i j) (name file) (nowISO env i j) item)
                          (enumerate 0 extractedData)))))"

text \<open>
  \<^verbatim>\<open>Promise.all\<close> keeps one slot per promise and fills slot \<open>i\<close> when promise \<open>i\<close>
  fulfils; the callbacks share the array \<^verbatim>\<open>errors\<close> and push onto it as they finish.
  \<open>settle\<close> is the completion of the callback at position \<open>i\<close>, \<open>awaitAll\<close> the state
  when the callbacks have finished in the order \<open>order\<close>. The effects of a callback are
  recorded when it finishes; their order carries no meaning.
\<close>

record Batch =
  results :: "Lead list list"
  errors :: "string list"
  effects :: "effect list"

definition settle ::
    "(nat \<Rightarrow> effect list \<times> (string + Lead list)) \<Rightarrow> nat \<Rightarrow> Batch \<Rightarrow> Batch" where
  "settle task i b =
     (case task i of
        (eff, Inl entry) \<Rightarrow>
          b\<lparr>results := (results b)[i := []], errors := errors b @ [entry],
            effects := effects b @ eff\<rparr>
      | (eff, Inr batch) \<Rightarrow>
          b\<lparr>results := (results b)[i := batch], effects := effects b @ eff\<rparr>)"

definition awaitAll ::
    "(nat \<Rightarrow> effect list \<times> (string + Lead list)) \<Rightarrow> nat \<Rightarrow> nat list \<Rightarrow> Batch" where
  "awaitAll task n order =
     fold (settle task) order \<lparr>results = replicate n [], errors = [], effects = []\<rparr>"

text \<open>
  \<^verbatim>\<open>await Promise.all(promises)\<close> returns when every callback has finished, that is
  when every position of the file array occurs, once, in the order of completion. There
  is no timeout: while a callback is outstanding the run stays where it is.
\<close>

definition allSettled :: "Env \<Rightarrow> File list \<Rightarrow> bool" where
  "allSettled env files = (sort (completionOrder env) = [0..<length files])"

text \<open>
  The component state that \<^verbatim>\<open>processFiles\<close> writes, and a run of \<^verbatim>\<open>processFiles\<close>:
  the state when its body has finished (the timer of the \<^verbatim>\<open>finally\<close> block, which sets
  the status back to idle four seconds later, has not fired), the local variables
  \<^verbatim>\<open>newLeadsAccumulator\<close> and \<^verbatim>\<open>errors\<close> (\<open>fileErrors\<close>) at that point, and the
  effects of the run. A run whose \<^verbatim>\<open>await\<close> does not return is left after
  \<^verbatim>\<open>setStatus(PROCESSING)\<close> and \<^verbatim>\<open>setErrorMsg(null)\<close>, with nothing accumulated.
\<close>

record AppState =
  leads :: "Lead list"
  status :: ProcessingStatus
  errorMsg :: "string option"

record Run =
  state :: AppState
  newLeadsAccumulator :: "Lead list"
  fileErrors :: "string list"
  trace :: "effect list"

definition processFiles :: "Env \<Rightarrow> string \<Rightarrow> string \<Rightarrow> File list \<Rightarrow> AppState \<Rightarrow> Run" where
  "processFiles env senderName companyName files s =
     (if length files = 0 then
        \<lparr>state = s, newLeadsAccumulator = [], fileErrors = [], trace = []\<rparr>
      else if length files > 10 then
        \<lparr>state = s\<lparr>errorMsg := Some ''Please upload a maximum of 10 files at a time.''\<rparr>,
         newLeadsAccumulator = [], fileErrors = [], trace = []\<rparr>
      else
        let b = awaitAll (\<lambda>i. processFile env senderName companyName i (files ! i))
                  (length files) (completionOrder env);
            acc = concat (results b)
        in if \<not> allSettled env files then
             \<lparr>state = s\<lparr>status := PROCESSING, errorMsg := None\<rparr>,
              newLeadsAccumulator = [], fileErrors = errors b, trace = effects b\<rparr>
           else if length acc = 0 \<and> length (errors b) > 0 then
             \<lparr>state = s\<lparr>status := ERROR,
                errorMsg := Some (messageOr
                  (Error (''Failed to extract leads from uploaded files. Errors: ''
                          @ join '' | '' (errors b)))
                  ''An unexpected error occurred.'')\<rparr>,
              newLeadsAccumulator = acc, fileErrors = errors b, trace = effects b\<rparr>
           else if length acc = 0 then
             \<lparr>state = s\<lparr>status := ERROR,
                errorMsg := Some (messageOr
                  (Error ''No valid leads found in the uploaded files.'')
                  ''An unexpected error occurred.'')\<rparr>,
              newLeadsAccumulator = acc, fileErrors = errors b, trace = effects b\<rparr>
           else
             \<lparr>state = \<lparr>leads = mergeLeads (leads s) acc, status = SUCCESS,
                errorMsg = (if length (errors b) > 0
                            then Some (''Processed with some errors: '' @ join '', '' (errors b))
                            else None)\<rparr>,
              newLeadsAccumulator = acc, fileErrors = errors b, trace = effects b\<rparr>)"

text \<open>The value that the promise of the file at position \<open>i\<close> resolves to.\<close>

definition fileLeads :: "Env \<Rightarrow> string \<Rightarrow> string \<Rightarrow> nat \<Rightarrow> File \<Rightarrow> Lead list" where
  "fileLeads env senderName companyName i file =
     (case snd (processFile env senderName companyName i file) of
        Inl entry \<Rightarrow> []
      | Inr batch \<Rightarrow> batch)"

text \<open>The entry that the callback of the file at position \<open>i\<close> pushes onto \<^verbatim>\<open>errors\<close>.\<close>

definition fileError :: "Env \<Rightarrow> string \<Rightarrow> string \<Rightarrow> nat \<Rightarrow> File \<Rightarrow> string list" where
  "fileError env senderName companyName i file =
     (case snd (processFile env senderName companyName i file) of
        Inl entry \<Rightarrow> [entry]
      | Inr batch \<Rightarrow> [])"

section \<open>Sample data\<close>

definition sampleRecord :: "string \<Rightarrow> string \<Rightarrow> ExtractedData" where
  "sampleRecord who phone =
     \<lparr>fullName = who, phoneNumber = phone,
      outreachMessage = ''Hi '' @ who @ '', are you open to CDL opportunities?''\<rparr>"

definition sampleLead :: "string \<Rightarrow> string \<Rightarrow> string \<Rightarrow> Lead" where
  "sampleLead uuid who phone =
     toLead uuid ''drivers.csv'' ''2024-05-01T10:00:00.000Z'' (sampleRecord who phone)"

definition sampleBatches :: "Lead list list" where
  "sampleBatches =
     [[sampleLead ''u1'' ''Ann'' ''(555) 010-0001'', sampleLead ''u2'' ''Bob'' ''(555) 010-0002'',
       sampleLead ''u3'' ''Rob'' ''(555) 010-0002''],
      [sampleLead ''u4'' ''Cy'' ''(555) 010-0003'', sampleLead ''u5'' ''Ann'' ''(555) 010-0001'']]"

definition samplePng :: File where
  "samplePng = \<lparr>name = ''drivers.png'', type' = ''image/png'',
     readAsDataURL = Some ''data:image/png;base64,iVBORw0KGgo='', readAsText = None\<rparr>"

definition sampleCsv :: File where
  "sampleCsv = \<lparr>name = ''drivers.csv'', type' = [],
     readAsDataURL = None, readAsText = Some ''Ann,(555) 010-0001;Bob,(555) 010-0002''\<rparr>"

definition samplePdf :: File where
  "samplePdf = \<lparr>name = ''drivers.pdf'', type' = ''application/pdf'',
     readAsDataURL = None, readAsText = None\<rparr>"

definition sampleNotes :: File where
  "sampleNotes = \<lparr>name = ''notes.txt'', type' = ''text/plain'',
     readAsDataURL = None, readAsText = Some ''office line only''\<rparr>"

definition sampleLost :: File where
  "sampleLost = \<lparr>name = ''lost.txt'', type' = ''text/plain'',
     readAsDataURL = None, readAsText = None\<rparr>"

definition sampleEnv :: Env where
  "sampleEnv =
     \<lparr>gateway = (\<lambda>i content mimeType senderName companyName.
          if mimeType = ''image/png'' then Inl (Error extractionFailed)
          else if content = Some ''Ann,(555) 010-0001;Bob,(555) 010-0002''
          then Inr [sampleRecord ''Ann'' ''(555) 010-0001'', sampleRecord ''Bob'' ''(555) 010-0002'']
          else Inr []),
      randomUUID = (\<lambda>i j. ''uuid-'' @ replicate i CHR ''f'' @ ''-'' @ replicate j CHR ''r''),
      nowISO = (\<lambda>i j. ''2024-05-01T10:00:00.000Z''),
      completionOrder = [2, 0, 1]\<rparr>"

definition sampleState :: AppState where
  "sampleState = \<lparr>leads = [sampleLead ''u0'' ''Bob'' ''(555) 010-0002''], status = IDLE,
     errorMsg = None\<rparr>"

text \<open>
  The value of \<^verbatim>\<open>JSON.parse\<close> at the two texts that the examples parse with success;
  the examples use no other text that \<^verbatim>\<open>JSON.parse\<close> accepts.
\<close>

definition sampleJSON_parse :: "string \<Rightarrow> json option" where
  \<open>sampleJSON_parse =
     [''[{"fullName":"Ann"}]'' \<mapsto> JArray [JObject [(''fullName'', JString ''Ann'')]],
      ''[{"fullName":"Ann","phoneNumber":"(555) 010-0001","outreachMessage":"Hi Ann"}]'' \<mapsto>
        JArray [JObject [(''fullName'', JString ''Ann''),
                         (''phoneNumber'', JString ''(555) 010-0001''),
                         (''outreachMessage'', JString ''Hi Ann'')]]]\<close>

section \<open>Properties of the file decoder\<close>

lemma splitOn_nonempty: "splitOn sep s \<noteq> []"
  by (induction s) (auto split: list.splits)

lemma splitOn_no_sep: "sep \<notin> set s \<Longrightarrow> splitOn sep s = [s]"
  by (induction s) auto

lemma splitOn_first: "sep \<notin> set a \<Longrightarrow> splitOn sep (a @ sep # rest) = a # splitOn sep rest"
  by (induction a) auto

lemma dataURL_payload:
  assumes "CHR '','' \<notin> set mimeType" and "CHR '','' \<notin> set payload"
  shows "index (splitOn CHR '','' (''data:'' @ mimeType @ '';base64,'' @ payload)) 1 = Some payload"
proof -
  have "''data:'' @ mimeType @ '';base64,'' @ payload
      = (''data:'' @ mimeType @ '';base64'') @ CHR '','' # payload"
    by simp
  moreover have "CHR '','' \<notin> set (''data:'' @ mimeType @ '';base64'')"
    using assms(1) by simp
  ultimately have "splitOn CHR '','' (''data:'' @ mimeType @ '';base64,'' @ payload)
      = (''data:'' @ mimeType @ '';base64'') # splitOn CHR '','' payload"
    using splitOn_first by metis
  with assms(2) show ?thesis
    by (simp add: splitOn_no_sep index_def)
qed

lemma base64_no_comma: "set payload \<subseteq> set base64Alphabet \<Longrightarrow> CHR '','' \<notin> set payload"
  by (auto simp: base64Alphabet_def)

text \<open>
  C7. For every file: with an image media type, the content is the base64 payload of the
  data URL that the reader delivers and the tag is the file's own media type, and a failed
  read is the failure naming the file; otherwise, when the media type is \<^verbatim>\<open>text/csv\<close>
  or \<^verbatim>\<open>text/plain\<close>, or the name ends in \<^verbatim>\<open>.csv\<close> or \<^verbatim>\<open>.txt\<close>, the content is
  the text read and the tag is \<^verbatim>\<open>text/plain\<close>, and a failed read is the failure naming
  the file; otherwise the file is rejected as unsupported, by name. The data URL is the one
  a reader builds, \<^verbatim>\<open>data:<type>;base64,<payload>\<close>, for a media type without a comma.
\<close>

theorem readFile_decodes:
  "(startsWith (type' f) ''image/'' \<longrightarrow>
      (readAsDataURL f = None \<longrightarrow>
         readFile f = Inl (Error (''Failed to read file: '' @ name f)))
    \<and> (readAsDataURL f = Some (''data:'' @ type' f @ '';base64,'' @ payload)
         \<and> CHR '','' \<notin> set (type' f) \<and> set payload \<subseteq> set base64Alphabet \<longrightarrow>
         readFile f = Inr (Some payload, type' f)))
   \<and> (\<not> startsWith (type' f) ''image/''
       \<and> (type' f = ''text/csv'' \<or> type' f = ''text/plain''
          \<or> endsWith (name f) ''.csv'' \<or> endsWith (name f) ''.txt'') \<longrightarrow>
      (readAsText f = None \<longrightarrow>
         readFile f = Inl (Error (''Failed to read file: '' @ name f)))
    \<and> (readAsText f = Some text \<longrightarrow> readFile f = Inr (Some text, ''text/plain'')))
   \<and> (\<not> startsWith (type' f) ''image/''
       \<and> \<not> (type' f = ''text/csv'' \<or> type' f = ''text/plain''
            \<or> endsWith (name f) ''.csv'' \<or> endsWith (name f) ''.txt'') \<longrightarrow>
      readFile f = Inl (Error (''Unsupported file type: '' @ name f)))"
proof -
  have image: "readFile f = Inr (Some payload, type' f)"
    if "startsWith (type' f) ''image/''"
      and "readAsDataURL f = Some (''data:'' @ type' f @ '';base64,'' @ payload)"
      and "CHR '','' \<notin> set (type' f)" and "set payload \<subseteq> set base64Alphabet"
    using that dataURL_payload [OF that(3) base64_no_comma [OF that(4)]]
    by (simp add: readFile_def)
  show ?thesis
    using image by (auto simp: readFile_def)
qed

text \<open>
  A PNG image, a CSV file recognised by its extension only, a PDF, and a text file whose
  read fails.
\<close>

theorem readFile_decodes_witness:
  "readFile samplePng = Inr (Some ''iVBORw0KGgo='', ''image/png'')
   \<and> readFile sampleCsv = Inr (Some ''Ann,(555) 010-0001;Bob,(555) 010-0002'', ''text/plain'')
   \<and> readFile samplePdf = Inl (Error ''Unsupported file type: drivers.pdf'')
   \<and> readFile sampleLost = Inl (Error ''Failed to read file: lost.txt'')"
proof -
  have png: "startsWith (type' samplePng) ''image/''"
    "readAsDataURL samplePng = Some (''data:'' @ type' samplePng @ '';base64,'' @ ''iVBORw0KGgo='')"
    "CHR '','' \<notin> set (type' samplePng)" "set ''iVBORw0KGgo='' \<subseteq> set base64Alphabet"
    by (simp_all add: samplePng_def startsWith_def base64Alphabet_def)
  have csv: "\<not> startsWith (type' sampleCsv) ''image/''" "endsWith (name sampleCsv) ''.csv''"
    "readAsText sampleCsv = Some ''Ann,(555) 010-0001;Bob,(555) 010-0002''"
    by (simp_all add: sampleCsv_def startsWith_def endsWith_def suffix_to_prefix)
  have pdf: "\<not> startsWith (type' samplePdf) ''image/''"
    "\<not> (type' samplePdf = ''text/csv'' \<or> type' samplePdf = ''text/plain''
            \<or> endsWith (name samplePdf) ''.csv'' \<or> endsWith (name samplePdf) ''.txt'')"
    by (simp_all add: samplePdf_def startsWith_def endsWith_def suffix_to_prefix)
  have lost: "\<not> startsWith (type' sampleLost) ''image/''" "type' sampleLost = ''text/plain''"
    "readAsText sampleLost = None"
    by (simp_all add: sampleLost_def startsWith_def)
  from readFile_decodes [of samplePng "''iVBORw0KGgo=''"] png
  have 1: "readFile samplePng = Inr (Some ''iVBORw0KGgo='', ''image/png'')"
    by (simp add: samplePng_def)
  from readFile_decodes [of sampleCsv _ "''Ann,(555) 010-0001;Bob,(555) 010-0002''"] csv
  have 2: "readFile sampleCsv = Inr (Some ''Ann,(555) 010-0001;Bob,(555) 010-0002'', ''text/plain'')"
    by blast
  from readFile_decodes [of samplePdf] pdf
  have 3: "readFile samplePdf = Inl (Error ''Unsupported file type: drivers.pdf'')"
    by (simp add: samplePdf_def)
  from readFile_decodes [of sampleLost] lost
  have 4: "readFile sampleLost = Inl (Error ''Failed to read file: lost.txt'')"
    by (simp add: sampleLost_def)
  from 1 2 3 4 show ?thesis by blast
qed

section \<open>Properties of the extraction gateway\<close>

lemma cleanJsonOutput_fenced:
  "cleanJsonOutput (''```json'' @ [CHR 0x0A] @ ''[]'' @ [CHR 0x0A] @ ''```'') = ''[]''"
  by code_simp

lemma cleanJsonOutput_partial:
  \<open>cleanJsonOutput ''[{"fullName":"Ann"}]'' = ''[{"fullName":"Ann"}]''\<close>
  by code_simp

lemma cleanJsonOutput_prose:
  "cleanJsonOutput ''Sorry, no drivers here.'' = ''Sorry, no drivers here.''"
  by code_simp

lemma cleanJsonOutput_complete:
  \<open>cleanJsonOutput
     (''```json'' @ [CHR 0x0A]
      @ ''[{"fullName":"Ann","phoneNumber":"(555) 010-0001","outreachMessage":"Hi Ann"}]''
      @ [CHR 0x0A] @ ''```'')
   = ''[{"fullName":"Ann","phoneNumber":"(555) 010-0001","outreachMessage":"Hi Ann"}]''\<close>
  by code_simp

text \<open>
  C6, as stated, fails: the response text \<^verbatim>\<open>[{"fullName":"Ann"}]\<close> parses, so the
  gateway returns it to the caller, although its record has neither \<^verbatim>\<open>phoneNumber\<close>
  nor \<^verbatim>\<open>outreachMessage\<close>.
\<close>

theorem extractLeadsFromFile_counterexample:
  \<open>extractLeadsFromFile sampleJSON_parse (Response (Some ''[{"fullName":"Ann"}]''))
     = Inr (JArray [JObject [(''fullName'', JString ''Ann'')]])
   \<and> \<not> conformsToSchema (JArray [JObject [(''fullName'', JString ''Ann'')]])\<close>
  by (simp add: extractLeadsFromFile_def cleanJsonOutput_partial required_def
      sampleJSON_parse_def)

text \<open>
  C6, amended. For every file the gateway is all-or-nothing: a rejected call, or a text
  that \<^verbatim>\<open>JSON.parse\<close> rejects once the markdown fences are stripped, is the single
  failure \<open>extractionFailed\<close>; an absent or empty text is the empty list; and a text that
  parses is returned whole, exactly as parsed, without any check of the required fields.
\<close>

theorem extractLeadsFromFile_all_or_nothing:
  "extractLeadsFromFile JSON_parse Rejected = Inl (Error extractionFailed)
   \<and> extractLeadsFromFile JSON_parse (Response None) = Inr (JArray [])
   \<and> extractLeadsFromFile JSON_parse (Response (Some [])) = Inr (JArray [])
   \<and> (text \<noteq> [] \<and> JSON_parse (cleanJsonOutput text) = None \<longrightarrow>
        extractLeadsFromFile JSON_parse (Response (Some text)) = Inl (Error extractionFailed))
   \<and> (text \<noteq> [] \<and> JSON_parse (cleanJsonOutput text) = Some parsedData \<longrightarrow>
        extractLeadsFromFile JSON_parse (Response (Some text)) = Inr parsedData)"
  by (simp add: extractLeadsFromFile_def)

text \<open>
  A reply in prose is one failure; a fenced reply with a complete record is returned as
  parsed.
\<close>

theorem extractLeadsFromFile_all_or_nothing_witness:
  \<open>extractLeadsFromFile sampleJSON_parse (Response (Some ''Sorry, no drivers here.''))
     = Inl (Error extractionFailed)
   \<and> extractLeadsFromFile sampleJSON_parse
       (Response (Some (''```json'' @ [CHR 0x0A]
          @ ''[{"fullName":"Ann","phoneNumber":"(555) 010-0001","outreachMessage":"Hi Ann"}]''
          @ [CHR 0x0A] @ ''```'')))
     = Inr (JArray [JObject [(''fullName'', JString ''Ann''),
                             (''phoneNumber'', JString ''(555) 010-0001''),
                             (''outreachMessage'', JString ''Hi Ann'')]])\<close>
proof -
  have prose: "''Sorry, no drivers here.'' \<noteq> []
      \<and> sampleJSON_parse (cleanJsonOutput ''Sorry, no drivers here.'') = None"
    by (simp add: cleanJsonOutput_prose sampleJSON_parse_def)
  have complete:
    \<open>''```json'' @ [CHR 0x0A]
        @ ''[{"fullName":"Ann","phoneNumber":"(555) 010-0001","outreachMessage":"Hi Ann"}]''
        @ [CHR 0x0A] @ ''```'' \<noteq> []
      \<and> sampleJSON_parse (cleanJsonOutput (''```json'' @ [CHR 0x0A]
        @ ''[{"fullName":"Ann","phoneNumber":"(555) 010-0001","outreachMessage":"Hi Ann"}]''
        @ [CHR 0x0A] @ ''```''))
        = Some (JArray [JObject [(''fullName'', JString ''Ann''),
                             (''phoneNumber'', JString ''(555) 010-0001''),
                             (''outreachMessage'', JString ''Hi Ann'')]])\<close>
    unfolding cleanJsonOutput_complete by (simp add: sampleJSON_parse_def)
  from extractLeadsFromFile_all_or_nothing
         [of sampleJSON_parse "''Sorry, no drivers here.''"] prose
  have 1: "extractLeadsFromFile sampleJSON_parse (Response (Some ''Sorry, no drivers here.''))
     = Inl (Error extractionFailed)"
    by blast
  from extractLeadsFromFile_all_or_nothing
         [of sampleJSON_parse
           \<open>''```json'' @ [CHR 0x0A]
            @ ''[{"fullName":"Ann","phoneNumber":"(555) 010-0001","outreachMessage":"Hi Ann"}]''
            @ [CHR 0x0A] @ ''```''\<close>
           "JArray [JObject [(''fullName'', JString ''Ann''),
                             (''phoneNumber'', JString ''(555) 010-0001''),
                             (''outreachMessage'', JString ''Hi Ann'')]]"] complete
  have 2: \<open>extractLeadsFromFile sampleJSON_parse
       (Response (Some (''```json'' @ [CHR 0x0A]
          @ ''[{"fullName":"Ann","phoneNumber":"(555) 010-0001","outreachMessage":"Hi Ann"}]''
          @ [CHR 0x0A] @ ''```'')))
     = Inr (JArray [JObject [(''fullName'', JString ''Ann''),
                             (''phoneNumber'', JString ''(555) 010-0001''),
                             (''outreachMessage'', JString ''Hi Ann'')]])\<close>
    by blast
  from 1 2 show ?thesis by blast
qed

section \<open>Properties of the lead merger\<close>

lemma length_processedBatch: "length (processedBatch S B) = length B"
  by (induction B arbitrary: S) auto

lemma processedBatch_phones: "map phoneNumber (processedBatch S B) = map phoneNumber B"
  by (induction B arbitrary: S) auto

lemma processedBatch_only_flags:
  "map (\<lambda>l. l\<lparr>isDuplicate := b\<rparr>) (processedBatch S B) = map (\<lambda>l. l\<lparr>isDuplicate := b\<rparr>) B"
  by (induction B arbitrary: S) auto

lemma processedBatch_nth:
  "i < length B \<Longrightarrow>
   processedBatch S B ! i =
     (B ! i)\<lparr>isDuplicate := (phoneNumber (B ! i) \<in> S \<union> phoneNumber ` set (take i B))\<rparr>"
proof (induction B arbitrary: S i)
  case Nil
  then show ?case by simp
next
  case (Cons lead rest)
  show ?case
  proof (cases i)
    case 0
    then show ?thesis by simp
  next
    case (Suc j)
    with Cons.prems have j: "j < length rest" by simp
    show ?thesis
    proof (cases "phoneNumber lead \<in> S")
      case True
      then have "(phoneNumber (rest ! j) \<in> S \<union> phoneNumber ` set (take j rest))
          = (phoneNumber (rest ! j) \<in> S \<union> phoneNumber ` set (take i (lead # rest)))"
        using Suc by auto
      with True Suc Cons.IH [OF j, of S] show ?thesis by simp
    next
      case False
      have "(phoneNumber (rest ! j)
              \<in> insert (phoneNumber lead) S \<union> phoneNumber ` set (take j rest))
          = (phoneNumber (rest ! j) \<in> S \<union> phoneNumber ` set (take i (lead # rest)))"
        using Suc by auto
      with False Suc Cons.IH [OF j, of "insert (phoneNumber lead) S"] show ?thesis by simp
    qed
  qed
qed

text \<open>
  C1. For every history \<open>H\<close> and batch \<open>B\<close> the merge returns the processed batch (the
  leads of \<open>B\<close> in their order, only the duplicate flag recomputed) followed by the whole of
  \<open>H\<close>: \<open>H\<close> is a suffix of the result, unchanged, in its order, nothing dropped.
\<close>

theorem mergeLeads_keeps_history:
  "mergeLeads H B = processedBatch (set (map phoneNumber H)) B @ H
   \<and> suffix H (mergeLeads H B)
   \<and> drop (length B) (mergeLeads H B) = H
   \<and> length (mergeLeads H B) = length B + length H
   \<and> map (\<lambda>l. l\<lparr>isDuplicate := False\<rparr>) (take (length B) (mergeLeads H B))
       = map (\<lambda>l. l\<lparr>isDuplicate := False\<rparr>) B"
  by (simp add: mergeLeads_def length_processedBatch processedBatch_only_flags suffix_def)

text \<open>
  C2. Walking the batch \<open>B\<close> in order, the lead materialized for the candidate at
  position \<open>i\<close> is that candidate with \<open>isDuplicate\<close> set to true exactly when its phone
  number occurs in the history \<open>H\<close> or at an earlier position of \<open>B\<close>; so the first
  occurrence of a number, in \<open>H\<close>-then-\<open>B\<close> order, is new and every later one in \<open>B\<close> is
  a duplicate.
\<close>

theorem mergeLeads_flags:
  "i < length B \<Longrightarrow>
   mergeLeads H B ! i =
     (B ! i)\<lparr>isDuplicate :=
        (phoneNumber (B ! i) \<in> phoneNumber ` set H \<union> phoneNumber ` set (take i B))\<rparr>"
  by (simp add: mergeLeads_def nth_append length_processedBatch processedBatch_nth)

lemma history_snoc: "history (bs @ [b]) = mergeLeads (history bs) b"
  by (simp add: history_def)

lemma mergedBlock_snoc_old: "k < length bs \<Longrightarrow> mergedBlock (bs @ [b]) k = mergedBlock bs k"
  by (simp add: mergedBlock_def nth_append)

lemma mergedBlock_snoc_new:
  "mergedBlock (bs @ [b]) (length bs) = processedBatch (set (map phoneNumber (history bs))) b"
  by (simp add: mergedBlock_def history_snoc mergeLeads_def length_processedBatch)

lemma mergedBlocks_snoc:
  "map (mergedBlock (bs @ [b])) [0..<length bs] = map (mergedBlock bs) [0..<length bs]"
  by (rule map_cong [OF refl]) (simp add: mergedBlock_snoc_old)

lemma chronological_snoc:
  "chronological (bs @ [b]) =
     chronological bs @ processedBatch (set (map phoneNumber (history bs))) b"
  by (simp add: chronological_def mergedBlock_snoc_new mergedBlocks_snoc)

lemma history_blocks:
  "history bs = concat (rev (map (mergedBlock bs) [0..<length bs]))"
proof (induction bs rule: rev_induct)
  case Nil
  then show ?case by (simp add: history_def)
next
  case (snoc b bs)
  then show ?case
    by (simp add: history_snoc mergedBlock_snoc_new mergedBlocks_snoc mergeLeads_def)
qed

lemma set_history: "set (history bs) = set (chronological bs)"
  by (simp add: history_blocks chronological_def)

lemma filter_history:
  "length (filter P (history bs)) = length (filter P (chronological bs))"
proof -
  have "length (filter P (concat (rev xss))) = length (filter P (concat xss))"
    for xss :: "Lead list list"
    by (induction xss) (auto simp: filter_concat)
  then show ?thesis by (simp add: history_blocks chronological_def)
qed

lemma processedBatch_take_phones:
  "phoneNumber ` set (take k (processedBatch S B)) = phoneNumber ` set (take k B)"
proof -
  have "map phoneNumber (take k (processedBatch S B)) = map phoneNumber (take k B)"
    by (simp add: take_map [symmetric] processedBatch_phones)
  then have "set (map phoneNumber (take k (processedBatch S B))) = set (map phoneNumber (take k B))"
    by simp
  then show ?thesis by (simp only: set_map)
qed

lemma chronological_flags:
  "j < length (chronological bs) \<Longrightarrow>
   isDuplicate (chronological bs ! j) =
     (phoneNumber (chronological bs ! j) \<in> phoneNumber ` set (take j (chronological bs)))"
proof (induction bs arbitrary: j rule: rev_induct)
  case Nil
  then show ?case by (simp add: chronological_def)
next
  case (snoc b bs)
  let ?C = "chronological bs"
  let ?P = "processedBatch (set (map phoneNumber (history bs))) b"
  have C': "chronological (bs @ [b]) = ?C @ ?P" by (rule chronological_snoc)
  show ?case
  proof (cases "j < length ?C")
    case True
    with snoc.IH [OF True] show ?thesis by (simp add: C' nth_append)
  next
    case False
    define k where "k = j - length ?C"
    from False snoc.prems have k: "k < length b" and j: "j = length ?C + k"
      by (simp_all add: k_def C' length_processedBatch)
    show ?thesis
      using k
      by (simp add: C' j nth_append processedBatch_nth set_history image_Un
          processedBatch_take_phones)
  qed
qed

lemma in_image_take:
  assumes "j \<le> length C"
  shows "(y \<in> f ` set (take j C)) = (\<exists>k<j. f (C ! k) = y)"
proof -
  from assms have "set (take j C) = (!) C ` {0..<j}"
    by (simp add: nth_image)
  then have "f ` set (take j C) = (\<lambda>k. f (C ! k)) ` {0..<j}"
    by (simp add: image_image)
  then show ?thesis by force
qed

lemma first_seen_snoc:
  assumes "\<forall>j<length (C @ [x]). isDuplicate ((C @ [x]) ! j)
              = (phoneNumber ((C @ [x]) ! j) \<in> phoneNumber ` set (take j (C @ [x])))"
  shows "(\<forall>j<length C. isDuplicate (C ! j) = (phoneNumber (C ! j) \<in> phoneNumber ` set (take j C)))
         \<and> isDuplicate x = (phoneNumber x \<in> phoneNumber ` set C)"
proof
  show "\<forall>j<length C. isDuplicate (C ! j) = (phoneNumber (C ! j) \<in> phoneNumber ` set (take j C))"
  proof (intro allI impI)
    fix j assume j: "j < length C"
    with assms have "isDuplicate ((C @ [x]) ! j)
              = (phoneNumber ((C @ [x]) ! j) \<in> phoneNumber ` set (take j (C @ [x])))"
      by simp
    with j show "isDuplicate (C ! j) = (phoneNumber (C ! j) \<in> phoneNumber ` set (take j C))"
      by (simp add: nth_append)
  qed
next
  have "length C < length (C @ [x])" by simp
  with assms have "isDuplicate ((C @ [x]) ! length C)
              = (phoneNumber ((C @ [x]) ! length C) \<in> phoneNumber ` set (take (length C) (C @ [x])))"
    by blast
  then show "isDuplicate x = (phoneNumber x \<in> phoneNumber ` set C)" by simp
qed

lemma first_seen_new_phones:
  "\<forall>j<length C. isDuplicate (C ! j) = (phoneNumber (C ! j) \<in> phoneNumber ` set (take j C)) \<Longrightarrow>
   distinct (map phoneNumber (filter (\<lambda>l. \<not> isDuplicate l) C))
   \<and> set (map phoneNumber (filter (\<lambda>l. \<not> isDuplicate l) C)) = phoneNumber ` set C"
proof (induction C rule: rev_induct)
  case Nil
  then show ?case by simp
next
  case (snoc x C)
  from first_seen_snoc [OF snoc.prems] snoc.IH
  have IH: "distinct (map phoneNumber (filter (\<lambda>l. \<not> isDuplicate l) C))"
    "set (map phoneNumber (filter (\<lambda>l. \<not> isDuplicate l) C)) = phoneNumber ` set C"
    and x: "isDuplicate x = (phoneNumber x \<in> phoneNumber ` set C)"
    by simp_all
  show ?case
  proof (cases "isDuplicate x")
    case True
    with IH x show ?thesis by auto
  next
    case False
    with IH x show ?thesis by auto
  qed
qed

lemma first_seen_one_new:
  "\<forall>j<length C. isDuplicate (C ! j) = (phoneNumber (C ! j) \<in> phoneNumber ` set (take j C)) \<Longrightarrow>
   length (filter (\<lambda>l. phoneNumber l = p \<and> \<not> isDuplicate l) C)
     = (if p \<in> phoneNumber ` set C then 1 else 0)"
proof (induction C rule: rev_induct)
  case Nil
  then show ?case by simp
next
  case (snoc x C)
  from first_seen_snoc [OF snoc.prems] snoc.IH
  have IH: "length (filter (\<lambda>l. phoneNumber l = p \<and> \<not> isDuplicate l) C)
     = (if p \<in> phoneNumber ` set C then 1 else 0)"
    and x: "isDuplicate x = (phoneNumber x \<in> phoneNumber ` set C)"
    by simp_all
  show ?case
  proof (cases "phoneNumber x = p")
    case True
    with IH x show ?thesis by auto
  next
    case False
    with IH x show ?thesis by auto
  qed
qed

lemma newLeads_filter: "newLeads H = int (length (filter (\<lambda>l. \<not> isDuplicate l) H))"
proof -
  have "length H = length (filter isDuplicate H) + length (filter (\<lambda>l. \<not> isDuplicate l) H)"
    by (rule sum_length_filter_compl [symmetric])
  then show ?thesis by (simp add: newLeads_def totalLeads_def duplicateCount_def)
qed

text \<open>
  C10. In the history reached from the empty history by merging any sequence of batches:
  the history is the merged blocks, newest first; listing these blocks oldest first, a lead
  is not a duplicate exactly when no lead merged before it has its phone number; for every
  phone number of the history exactly one lead with that number is not a duplicate; and
  the count of new leads (total minus duplicates) is the number of distinct phone numbers.
\<close>

theorem history_first_seen:
  "history batches = concat (rev (map (mergedBlock batches) [0..<length batches]))
   \<and> chronological batches = concat (map (mergedBlock batches) [0..<length batches])
   \<and> (\<forall>j<length (chronological batches).
         (\<not> isDuplicate (chronological batches ! j))
          = (\<forall>k<j. phoneNumber (chronological batches ! k)
                      \<noteq> phoneNumber (chronological batches ! j)))
   \<and> (\<forall>p \<in> phoneNumber ` set (history batches).
         length (filter (\<lambda>l. phoneNumber l = p \<and> \<not> isDuplicate l) (history batches)) = 1)
   \<and> newLeads (history batches) = int (card (phoneNumber ` set (history batches)))"
proof -
  let ?C = "chronological batches"
  have fs: "\<forall>j<length ?C. isDuplicate (?C ! j) = (phoneNumber (?C ! j) \<in> phoneNumber ` set (take j ?C))"
    using chronological_flags by blast
  have earliest: "\<forall>j<length ?C. (\<not> isDuplicate (?C ! j))
          = (\<forall>k<j. phoneNumber (?C ! k) \<noteq> phoneNumber (?C ! j))"
  proof (intro allI impI)
    fix j assume j: "j < length ?C"
    from j have "(phoneNumber (?C ! j) \<in> phoneNumber ` set (take j ?C))
        = (\<exists>k<j. phoneNumber (?C ! k) = phoneNumber (?C ! j))"
      by (simp add: in_image_take)
    with fs j show "(\<not> isDuplicate (?C ! j))
          = (\<forall>k<j. phoneNumber (?C ! k) \<noteq> phoneNumber (?C ! j))"
      by auto
  qed
  have one: "\<forall>p \<in> phoneNumber ` set (history batches).
         length (filter (\<lambda>l. phoneNumber l = p \<and> \<not> isDuplicate l) (history batches)) = 1"
    using first_seen_one_new [OF fs] by (simp add: filter_history set_history)
  have "newLeads (history batches) = int (length (map phoneNumber (filter (\<lambda>l. \<not> isDuplicate l) ?C)))"
    by (simp add: newLeads_filter filter_history)
  also have "\<dots> = int (card (set (map phoneNumber (filter (\<lambda>l. \<not> isDuplicate l) ?C))))"
    using first_seen_new_phones [OF fs] distinct_card by fastforce
  also have "\<dots> = int (card (phoneNumber ` set (history batches)))"
    using first_seen_new_phones [OF fs] set_history [of batches] by presburger
  finally have count: "newLeads (history batches) = int (card (phoneNumber ` set (history batches)))" .
  from history_blocks earliest one count show ?thesis
    by (simp only: chronological_def [symmetric] simp_thms)
qed

text \<open>
  At a history holding Ann's number: the second Bob number of the batch is a duplicate,
  the number of Cy is new.
\<close>

theorem mergeLeads_flags_witness:
  "mergeLeads [sampleLead ''u0'' ''Ann'' ''(555) 010-0001'']
     [sampleLead ''u1'' ''Ann'' ''(555) 010-0001'', sampleLead ''u2'' ''Bob'' ''(555) 010-0002'',
      sampleLead ''u3'' ''Rob'' ''(555) 010-0002'', sampleLead ''u4'' ''Cy'' ''(555) 010-0003''] ! 2
   = (sampleLead ''u3'' ''Rob'' ''(555) 010-0002'')\<lparr>isDuplicate := True\<rparr>
   \<and> mergeLeads [sampleLead ''u0'' ''Ann'' ''(555) 010-0001'']
     [sampleLead ''u1'' ''Ann'' ''(555) 010-0001'', sampleLead ''u2'' ''Bob'' ''(555) 010-0002'',
      sampleLead ''u3'' ''Rob'' ''(555) 010-0002'', sampleLead ''u4'' ''Cy'' ''(555) 010-0003''] ! 3
   = (sampleLead ''u4'' ''Cy'' ''(555) 010-0003'')\<lparr>isDuplicate := False\<rparr>"
  using mergeLeads_flags [of 2
      "[sampleLead ''u1'' ''Ann'' ''(555) 010-0001'', sampleLead ''u2'' ''Bob'' ''(555) 010-0002'',
        sampleLead ''u3'' ''Rob'' ''(555) 010-0002'', sampleLead ''u4'' ''Cy'' ''(555) 010-0003'']"
      "[sampleLead ''u0'' ''Ann'' ''(555) 010-0001'']"]
    mergeLeads_flags [of 3
      "[sampleLead ''u1'' ''Ann'' ''(555) 010-0001'', sampleLead ''u2'' ''Bob'' ''(555) 010-0002'',
        sampleLead ''u3'' ''Rob'' ''(555) 010-0002'', sampleLead ''u4'' ''Cy'' ''(555) 010-0003'']"
      "[sampleLead ''u0'' ''Ann'' ''(555) 010-0001'']"]
  by (simp add: sampleLead_def sampleRecord_def toLead_def)

lemma sample_chronological:
  "chronological sampleBatches =
     [sampleLead ''u1'' ''Ann'' ''(555) 010-0001'', sampleLead ''u2'' ''Bob'' ''(555) 010-0002'',
      (sampleLead ''u3'' ''Rob'' ''(555) 010-0002'')\<lparr>isDuplicate := True\<rparr>,
      sampleLead ''u4'' ''Cy'' ''(555) 010-0003'',
      (sampleLead ''u5'' ''Ann'' ''(555) 010-0001'')\<lparr>isDuplicate := True\<rparr>]"
  by (simp add: chronological_def mergedBlock_def history_def mergeLeads_def sampleBatches_def
      sampleLead_def sampleRecord_def toLead_def upt_rec_numeral)

lemma sample_history:
  "history sampleBatches =
     [sampleLead ''u4'' ''Cy'' ''(555) 010-0003'',
      (sampleLead ''u5'' ''Ann'' ''(555) 010-0001'')\<lparr>isDuplicate := True\<rparr>,
      sampleLead ''u1'' ''Ann'' ''(555) 010-0001'', sampleLead ''u2'' ''Bob'' ''(555) 010-0002'',
      (sampleLead ''u3'' ''Rob'' ''(555) 010-0002'')\<lparr>isDuplicate := True\<rparr>]"
  by (simp add: history_def mergeLeads_def sampleBatches_def
      sampleLead_def sampleRecord_def toLead_def)

text \<open>
  Two batches, Ann, Bob, Rob (Bob's number) and then Cy, Ann again: three distinct
  numbers, the second Ann is a duplicate of the first.
\<close>

theorem history_first_seen_witness:
  "(4::nat) < length (chronological sampleBatches)
   \<and> isDuplicate (chronological sampleBatches ! 4)
   \<and> phoneNumber (chronological sampleBatches ! 0) = phoneNumber (chronological sampleBatches ! 4)
   \<and> ''(555) 010-0001'' \<in> phoneNumber ` set (history sampleBatches)
   \<and> length (filter (\<lambda>l. phoneNumber l = ''(555) 010-0001'' \<and> \<not> isDuplicate l)
         (history sampleBatches)) = 1
   \<and> newLeads (history sampleBatches) = 3"
proof -
  have j: "(4::nat) < length (chronological sampleBatches)"
    by (simp add: sample_chronological)
  have p: "''(555) 010-0001'' \<in> phoneNumber ` set (history sampleBatches)"
    by (simp add: sample_history sampleLead_def sampleRecord_def toLead_def)
  have same: "phoneNumber (chronological sampleBatches ! 0)
      = phoneNumber (chronological sampleBatches ! 4)"
    by (simp add: sample_chronological sampleLead_def sampleRecord_def toLead_def)
  have card: "card (phoneNumber ` set (history sampleBatches)) = 3"
    by (simp add: sample_history sampleLead_def sampleRecord_def toLead_def)
  from history_first_seen [of sampleBatches] j same
  have dup: "isDuplicate (chronological sampleBatches ! 4)" by fastforce
  from history_first_seen [of sampleBatches] p
  have one: "length (filter (\<lambda>l. phoneNumber l = ''(555) 010-0001'' \<and> \<not> isDuplicate l)
         (history sampleBatches)) = 1" by blast
  from history_first_seen [of sampleBatches]
  have "newLeads (history sampleBatches) = int (card (phoneNumber ` set (history sampleBatches)))"
    by blast
  with card have "newLeads (history sampleBatches) = 3" by simp
  with j dup same p one show ?thesis by blast
qed

section \<open>Properties of the batch processor\<close>

lemma results_settle:
  "results (settle task i b) = (results b)[i := (case snd (task i) of Inl entry \<Rightarrow> [] | Inr batch \<Rightarrow> batch)]"
  by (simp add: settle_def split: prod.splits sum.splits)

lemma errors_settle:
  "errors (settle task i b) = errors b @ (case snd (task i) of Inl entry \<Rightarrow> [entry] | Inr batch \<Rightarrow> [])"
  by (simp add: settle_def split: prod.splits sum.splits)

lemma effects_settle:
  "effects (settle task i b) = effects b @ fst (task i)"
  by (simp add: settle_def split: prod.splits sum.splits)

lemma length_results_fold:
  "length (results (fold (settle task) order b)) = length (results b)"
  by (induction order arbitrary: b) (simp_all add: results_settle)

lemma results_fold_nth:
  "i < length (results b) \<Longrightarrow>
   results (fold (settle task) order b) ! i =
     (if i \<in> set order
      then (case snd (task i) of Inl entry \<Rightarrow> [] | Inr batch \<Rightarrow> batch)
      else results b ! i)"
proof (induction order arbitrary: b)
  case Nil
  then show ?case by simp
next
  case (Cons k order)
  from Cons.prems have "i < length (results (settle task k b))"
    by (simp add: results_settle)
  from Cons.IH [OF this] Cons.prems show ?case
    by (simp add: results_settle nth_list_update)
qed

lemma errors_fold:
  "errors (fold (settle task) order b) =
     errors b @ concat (map (\<lambda>i. case snd (task i) of Inl entry \<Rightarrow> [entry] | Inr batch \<Rightarrow> []) order)"
  by (induction order arbitrary: b) (simp_all add: errors_settle)

lemma effects_fold:
  "effects (fold (settle task) order b) = effects b @ concat (map (\<lambda>i. fst (task i)) order)"
  by (induction order arbitrary: b) (simp_all add: effects_settle)

lemma sorted_upt_set:
  assumes "sort order = [0..<n]"
  shows "set order = {0..<n}"
proof -
  have "set order = set (sort order)" by simp
  with assms show ?thesis by simp
qed

lemma results_awaitAll:
  assumes "sort order = [0..<n]"
  shows "results (awaitAll task n order)
          = map (\<lambda>i. case snd (task i) of Inl entry \<Rightarrow> [] | Inr batch \<Rightarrow> batch) [0..<n]"
proof (rule nth_equalityI)
  show "length (results (awaitAll task n order))
      = length (map (\<lambda>i. case snd (task i) of Inl entry \<Rightarrow> [] | Inr batch \<Rightarrow> batch) [0..<n])"
    by (simp add: awaitAll_def length_results_fold)
next
  fix i assume "i < length (results (awaitAll task n order))"
  then have i: "i < n" by (simp add: awaitAll_def length_results_fold)
  with sorted_upt_set [OF assms] have "i \<in> set order" by simp
  with i show "results (awaitAll task n order) ! i
      = map (\<lambda>i. case snd (task i) of Inl entry \<Rightarrow> [] | Inr batch \<Rightarrow> batch) [0..<n] ! i"
    by (simp add: awaitAll_def results_fold_nth)
qed

lemma errors_awaitAll:
  "errors (awaitAll task n order)
     = concat (map (\<lambda>i. case snd (task i) of Inl entry \<Rightarrow> [entry] | Inr batch \<Rightarrow> []) order)"
  by (simp add: awaitAll_def errors_fold)

lemma effects_awaitAll:
  "effects (awaitAll task n order) = concat (map (\<lambda>i. fst (task i)) order)"
  by (simp add: awaitAll_def effects_fold)

lemma processFiles_flattened:
  assumes "files \<noteq> []" and "length files \<le> 10" and "allSettled env files"
  shows "newLeadsAccumulator (processFiles env senderName companyName files s)
           = concat (results (awaitAll (\<lambda>i. processFile env senderName companyName i (files ! i))
                                (length files) (completionOrder env)))"
  using assms by (simp add: processFiles_def Let_def)

lemma processFiles_locals:
  assumes "files \<noteq> []" and "length files \<le> 10"
  shows "fileErrors (processFiles env senderName companyName files s)
           = errors (awaitAll (\<lambda>i. processFile env senderName companyName i (files ! i))
                                (length files) (completionOrder env))"
    and "trace (processFiles env senderName companyName files s)
           = effects (awaitAll (\<lambda>i. processFile env senderName companyName i (files ! i))
                                (length files) (completionOrder env))"
  using assms by (simp_all add: processFiles_def Let_def)

lemma processFiles_accumulator:
  assumes "allSettled env files" and "length files \<le> 10"
  shows "newLeadsAccumulator (processFiles env senderName companyName files s)
           = concat (map (\<lambda>i. fileLeads env senderName companyName i (files ! i)) [0..<length files])"
proof (cases "files = []")
  case True
  then show ?thesis by (simp add: processFiles_def)
next
  case False
  from assms(1) have "sort (completionOrder env) = [0..<length files]"
    by (simp add: allSettled_def)
  from results_awaitAll [OF this] processFiles_flattened [OF False assms(2,1)]
  show ?thesis by (simp add: fileLeads_def)
qed

lemma processFiles_fileErrors:
  assumes "files \<noteq> []" and "length files \<le> 10"
  shows "fileErrors (processFiles env senderName companyName files s)
           = concat (map (\<lambda>i. fileError env senderName companyName i (files ! i))
                      (completionOrder env))"
  using processFiles_locals(1) [OF assms] by (simp add: errors_awaitAll fileError_def)

lemma processFiles_trace:
  assumes "files \<noteq> []" and "length files \<le> 10"
  shows "trace (processFiles env senderName companyName files s)
           = concat (map (\<lambda>i. fst (processFile env senderName companyName i (files ! i)))
                      (completionOrder env))"
  using processFiles_locals(2) [OF assms] by (simp add: effects_awaitAll)

lemma processFiles_produced_size:
  "newLeadsAccumulator (processFiles env senderName companyName files s) \<noteq> [] \<Longrightarrow>
   files \<noteq> [] \<and> length files \<le> 10 \<and> allSettled env files"
  by (auto simp: processFiles_def Let_def split: if_splits)

lemma truncate_toLead: "ExtractedData.truncate (toLead uuid fileName now item) = item"
  by (cases item) (simp add: toLead_def ExtractedData.truncate_def)

lemma truncate_enumerate:
  "map (ExtractedData.truncate \<circ> (\<lambda>(j, item). toLead (u j) fileName (t j) item))
     (enumerate k xs) = xs"
  by (induction xs arbitrary: k) (simp_all add: truncate_toLead)

lemma sourceFile_enumerate:
  "map (sourceFile \<circ> (\<lambda>(j, item). toLead (u j) fileName (t j) item)) (enumerate k xs)
   = replicate (length xs) fileName"
  by (induction xs arbitrary: k) (simp_all add: toLead_def)

lemma fileLeads_candidates:
  "map ExtractedData.truncate (fileLeads env senderName companyName i file)
     = (case readFile file of
          Inl err \<Rightarrow> []
        | Inr (content, mimeType) \<Rightarrow>
            (case gateway env i content mimeType senderName companyName of
               Inl err \<Rightarrow> []
             | Inr extractedData \<Rightarrow> extractedData))"
  by (simp add: fileLeads_def processFile_def truncate_enumerate split: sum.splits prod.splits)

lemma fileLeads_sourceFile:
  "map sourceFile (fileLeads env senderName companyName i file)
     = replicate (length (fileLeads env senderName companyName i file)) (name file)"
  by (simp add: fileLeads_def processFile_def sourceFile_enumerate split: sum.splits prod.splits)

lemma fileLeads_order_free:
  "fileLeads (env\<lparr>completionOrder := order\<rparr>) senderName companyName i file
     = fileLeads env senderName companyName i file"
  by (simp add: fileLeads_def processFile_def split: sum.splits prod.splits)

lemma fileError_names_file:
  "entry \<in> set (fileError env senderName companyName i file) \<Longrightarrow>
   prefix (name file @ '': '') entry"
  by (auto simp: fileError_def processFile_def split: sum.splits prod.splits if_splits)

text \<open>
  C8. When every callback has finished, in whatever order, the list handed to the merger
  is the concatenation, in the order of the file array, of the leads of each file; the
  leads of one file are the records of its extraction response, in that order, each tagged
  with the name of that file; and the list is the same for every other order of completion.
\<close>

theorem processFiles_file_order:
  assumes "allSettled env files" and "length files \<le> 10"
  shows "newLeadsAccumulator (processFiles env senderName companyName files s)
           = concat (map (\<lambda>i. fileLeads env senderName companyName i (files ! i))
                       [0..<length files])
    \<and> (\<forall>i<length files.
          map ExtractedData.truncate (fileLeads env senderName companyName i (files ! i))
            = (case readFile (files ! i) of
                 Inl err \<Rightarrow> []
               | Inr (content, mimeType) \<Rightarrow>
                   (case gateway env i content mimeType senderName companyName of
                      Inl err \<Rightarrow> []
                    | Inr extractedData \<Rightarrow> extractedData))
          \<and> map sourceFile (fileLeads env senderName companyName i (files ! i))
            = replicate (length (fileLeads env senderName companyName i (files ! i)))
                (name (files ! i)))
    \<and> (\<forall>order. allSettled (env\<lparr>completionOrder := order\<rparr>) files \<longrightarrow>
          newLeadsAccumulator
            (processFiles (env\<lparr>completionOrder := order\<rparr>) senderName companyName files s)
          = newLeadsAccumulator (processFiles env senderName companyName files s))"
proof -
  have "newLeadsAccumulator
            (processFiles (env\<lparr>completionOrder := order\<rparr>) senderName companyName files s)
          = newLeadsAccumulator (processFiles env senderName companyName files s)"
    if "allSettled (env\<lparr>completionOrder := order\<rparr>) files" for order
    using processFiles_accumulator [OF that assms(2)] processFiles_accumulator [OF assms]
    by (simp add: fileLeads_order_free)
  with processFiles_accumulator [OF assms] fileLeads_candidates fileLeads_sourceFile
  show ?thesis
    by simp
qed

text \<open>
  C5. A batch of more than ten files is refused with the message asking for at most ten
  files, before anything else happens: no file is handed to the decoder, no gateway call is
  made, and the lead history (with the rest of the state) is as before.
\<close>

theorem processFiles_too_many:
  assumes "length files > 10"
  shows "state (processFiles env senderName companyName files s)
           = s\<lparr>errorMsg := Some ''Please upload a maximum of 10 files at a time.''\<rparr>
    \<and> leads (state (processFiles env senderName companyName files s)) = leads s
    \<and> trace (processFiles env senderName companyName files s) = []
    \<and> newLeadsAccumulator (processFiles env senderName companyName files s) = []
    \<and> fileErrors (processFiles env senderName companyName files s) = []"
  using assms by (auto simp: processFiles_def)

text \<open>
  The two outcomes of a finished run, stated on the local variable \<^verbatim>\<open>newLeadsAccumulator\<close>:
  empty, the run fails and leaves the history alone; not empty, the run succeeds.
\<close>

lemma processFiles_unproductive:
  assumes "files \<noteq> []" and "length files \<le> 10" and "allSettled env files"
    and "newLeadsAccumulator (processFiles env senderName companyName files s) = []"
  shows "leads (state (processFiles env senderName companyName files s)) = leads s
    \<and> status (state (processFiles env senderName companyName files s)) = ERROR
    \<and> (fileErrors (processFiles env senderName companyName files s) = [] \<longrightarrow>
         errorMsg (state (processFiles env senderName companyName files s))
           = Some ''No valid leads found in the uploaded files.'')
    \<and> (fileErrors (processFiles env senderName companyName files s) \<noteq> [] \<longrightarrow>
         errorMsg (state (processFiles env senderName companyName files s))
           = Some (''Failed to extract leads from uploaded files. Errors: ''
                   @ join '' | '' (fileErrors (processFiles env senderName companyName files s))))
    \<and> fileErrors (processFiles env senderName companyName files s)
         = concat (map (\<lambda>i. fileError env senderName companyName i (files ! i))
                    (completionOrder env))
    \<and> (\<forall>i<length files. fileLeads env senderName companyName i (files ! i) = [])"
proof -
  let ?b = "awaitAll (\<lambda>i. processFile env senderName companyName i (files ! i))
              (length files) (completionOrder env)"
  from assms(4) processFiles_flattened [OF assms(1,2,3)]
  have acc: "concat (results ?b) = []" by simp
  have run: "processFiles env senderName companyName files s =
      (if errors ?b \<noteq> [] then
         \<lparr>state = s\<lparr>status := ERROR,
            errorMsg := Some (''Failed to extract leads from uploaded files. Errors: ''
                              @ join '' | '' (errors ?b))\<rparr>,
          newLeadsAccumulator = [], fileErrors = errors ?b, trace = effects ?b\<rparr>
       else
         \<lparr>state = s\<lparr>status := ERROR,
            errorMsg := Some ''No valid leads found in the uploaded files.''\<rparr>,
          newLeadsAccumulator = [], fileErrors = errors ?b, trace = effects ?b\<rparr>)"
    using assms(1,2,3) acc by (simp add: processFiles_def Let_def)
  from assms(4) processFiles_accumulator [OF assms(3,2), of senderName companyName s]
  have none: "\<forall>i<length files. fileLeads env senderName companyName i (files ! i) = []"
    by simp
  show ?thesis
    using processFiles_fileErrors [OF assms(1,2), of env senderName companyName s] none
    by (cases "errors ?b = []") (simp_all add: run)
qed

lemma decode_in_effects:
  "Decode (name file) \<in> set (fst (processFile env senderName companyName i file))"
  by (simp add: processFile_def split: sum.splits prod.splits)

lemma processFiles_productive:
  assumes "newLeadsAccumulator (processFiles env senderName companyName files s) \<noteq> []"
  shows "status (state (processFiles env senderName companyName files s)) = SUCCESS
    \<and> leads (state (processFiles env senderName companyName files s))
        = processedBatch (set (map phoneNumber (leads s)))
            (newLeadsAccumulator (processFiles env senderName companyName files s)) @ leads s
    \<and> length (leads (state (processFiles env senderName companyName files s)))
        = length (newLeadsAccumulator (processFiles env senderName companyName files s))
          + length (leads s)
    \<and> newLeadsAccumulator (processFiles env senderName companyName files s)
        = concat (map (\<lambda>i. fileLeads env senderName companyName i (files ! i))
                    [0..<length files])
    \<and> fileErrors (processFiles env senderName companyName files s)
        = concat (map (\<lambda>i. fileError env senderName companyName i (files ! i))
                    (completionOrder env))
    \<and> errorMsg (state (processFiles env senderName companyName files s))
        = (if fileErrors (processFiles env senderName companyName files s) = [] then None
           else Some (''Processed with some errors: ''
                      @ join '', '' (fileErrors (processFiles env senderName companyName files s))))
    \<and> (\<forall>i<length files. \<forall>entry \<in> set (fileError env senderName companyName i (files ! i)).
          entry \<in> set (fileErrors (processFiles env senderName companyName files s))
          \<and> prefix (name (files ! i) @ '': '') entry)
    \<and> (\<forall>i<length files.
          Decode (name (files ! i))
            \<in> set (trace (processFiles env senderName companyName files s)))
    \<and> (\<forall>i<length files. \<forall>content mimeType.
          readFile (files ! i) = Inr (content, mimeType) \<longrightarrow>
          GatewayCall i content mimeType senderName companyName
            \<in> set (trace (processFiles env senderName companyName files s)))"
proof -
  let ?r = "processFiles env senderName companyName files s"
  let ?b = "awaitAll (\<lambda>i. processFile env senderName companyName i (files ! i))
              (length files) (completionOrder env)"
  from processFiles_produced_size [OF assms]
  have ne: "files \<noteq> []" and le: "length files \<le> 10" and settled: "allSettled env files"
    by simp_all
  from assms processFiles_flattened [OF ne le settled]
  have acc: "concat (results ?b) \<noteq> []" by simp
  have run: "?r =
      \<lparr>state = \<lparr>leads = mergeLeads (leads s) (concat (results ?b)), status = SUCCESS,
         errorMsg = (if errors ?b \<noteq> []
                     then Some (''Processed with some errors: '' @ join '', '' (errors ?b))
                     else None)\<rparr>,
       newLeadsAccumulator = concat (results ?b), fileErrors = errors ?b,
       trace = effects ?b\<rparr>"
    using ne le settled acc by (simp add: processFiles_def Let_def del: concat_eq_Nil_conv)
  have c1: "status (state ?r) = SUCCESS" by (simp add: run)
  have c2: "leads (state ?r)
      = processedBatch (set (map phoneNumber (leads s))) (newLeadsAccumulator ?r) @ leads s"
    by (simp add: run mergeLeads_def)
  have c3: "length (leads (state ?r)) = length (newLeadsAccumulator ?r) + length (leads s)"
    by (simp add: c2 length_processedBatch)
  note c4 = processFiles_accumulator [OF settled le, of senderName companyName s]
  note c5 = processFiles_fileErrors [OF ne le, of env senderName companyName s]
  have c6: "errorMsg (state ?r)
        = (if fileErrors ?r = [] then None
           else Some (''Processed with some errors: '' @ join '', '' (fileErrors ?r)))"
    by (simp add: run)
  from settled have order: "set (completionOrder env) = {0..<length files}"
    by (simp add: allSettled_def sorted_upt_set)
  have c7: "\<forall>i<length files. \<forall>entry \<in> set (fileError env senderName companyName i (files ! i)).
          entry \<in> set (fileErrors ?r) \<and> prefix (name (files ! i) @ '': '') entry"
    using order by (auto simp: c5 fileError_names_file)
  have c8: "\<forall>i<length files. Decode (name (files ! i)) \<in> set (trace ?r)"
  proof (intro allI impI)
    fix i assume i: "i < length files"
    with order have "i \<in> set (completionOrder env)" by simp
    moreover have "Decode (name (files ! i))
        \<in> set (fst (processFile env senderName companyName i (files ! i)))"
      by (rule decode_in_effects)
    ultimately show "Decode (name (files ! i)) \<in> set (trace ?r)"
      unfolding processFiles_trace [OF ne le] by auto
  qed
  have c9: "\<forall>i<length files. \<forall>content mimeType.
          readFile (files ! i) = Inr (content, mimeType) \<longrightarrow>
          GatewayCall i content mimeType senderName companyName \<in> set (trace ?r)"
  proof (intro allI impI)
    fix i content mimeType
    assume i: "i < length files" and read: "readFile (files ! i) = Inr (content, mimeType)"
    from i order have "i \<in> set (completionOrder env)" by simp
    moreover from read have "GatewayCall i content mimeType senderName companyName
        \<in> set (fst (processFile env senderName companyName i (files ! i)))"
      by (simp add: processFile_def)
    ultimately show "GatewayCall i content mimeType senderName companyName \<in> set (trace ?r)"
      unfolding processFiles_trace [OF ne le] by auto
  qed
  from c1 c2 c3 c4 c5 c6 c7 c8 c9 show ?thesis by blast
qed


lemmas run_defs = processFiles_def awaitAll_def settle_def processFile_def readFile_def
  fileLeads_def fileError_def allSettled_def
  startsWith_def endsWith_def suffix_to_prefix index_def Let_def enumerate_eq_zip

lemmas sample_defs = sampleEnv_def sampleState_def sampleCsv_def samplePng_def samplePdf_def
  sampleNotes_def

lemma sample_settled: "allSettled sampleEnv [sampleCsv, samplePng, sampleNotes]"
  by (simp add: run_defs sample_defs)

lemma sample_acc:
  "newLeadsAccumulator (processFiles sampleEnv [] [] [sampleCsv, samplePng, sampleNotes] sampleState)
   = [toLead ''uuid--'' ''drivers.csv'' ''2024-05-01T10:00:00.000Z''
        (sampleRecord ''Ann'' ''(555) 010-0001''),
      toLead ''uuid--r'' ''drivers.csv'' ''2024-05-01T10:00:00.000Z''
        (sampleRecord ''Bob'' ''(555) 010-0002'')]"
  by (simp add: run_defs sample_defs)

lemma sample_errs:
  "fileErrors (processFiles sampleEnv [] [] [sampleCsv, samplePng, sampleNotes] sampleState)
   = [''drivers.png: '' @ extractionFailed]"
  by (simp add: run_defs sample_defs extractionFailed_def)

text \<open>
  The same three files finishing in the order second, third, first give the same list.
\<close>

theorem processFiles_file_order_witness:
  "newLeadsAccumulator
     (processFiles (sampleEnv\<lparr>completionOrder := [1, 2, 0]\<rparr>) [] []
        [sampleCsv, samplePng, sampleNotes] sampleState)
   = newLeadsAccumulator
       (processFiles sampleEnv [] [] [sampleCsv, samplePng, sampleNotes] sampleState)
   \<and> map ExtractedData.truncate (fileLeads sampleEnv [] [] 0 sampleCsv)
     = [sampleRecord ''Ann'' ''(555) 010-0001'', sampleRecord ''Bob'' ''(555) 010-0002'']
   \<and> newLeadsAccumulator
       (processFiles sampleEnv [] [] [sampleCsv, samplePng, sampleNotes] sampleState)
     = fileLeads sampleEnv [] [] 0 sampleCsv @ fileLeads sampleEnv [] [] 1 samplePng
       @ fileLeads sampleEnv [] [] 2 sampleNotes"
proof -
  have le: "length [sampleCsv, samplePng, sampleNotes] \<le> 10" by simp
  have other: "allSettled (sampleEnv\<lparr>completionOrder := [1, 2, 0]\<rparr>)
      [sampleCsv, samplePng, sampleNotes]"
    by (simp add: run_defs sample_defs)
  note T = processFiles_file_order [OF sample_settled le, of "[]" "[]" sampleState]
  from T other have 1: "newLeadsAccumulator
     (processFiles (sampleEnv\<lparr>completionOrder := [1, 2, 0]\<rparr>) [] []
        [sampleCsv, samplePng, sampleNotes] sampleState)
   = newLeadsAccumulator
       (processFiles sampleEnv [] [] [sampleCsv, samplePng, sampleNotes] sampleState)"
    by blast
  from T have "\<forall>i<length [sampleCsv, samplePng, sampleNotes].
      map ExtractedData.truncate
        (fileLeads sampleEnv [] [] i ([sampleCsv, samplePng, sampleNotes] ! i))
      = (case readFile ([sampleCsv, samplePng, sampleNotes] ! i) of
           Inl err \<Rightarrow> []
         | Inr (content, mimeType) \<Rightarrow>
             (case gateway sampleEnv i content mimeType [] [] of
                Inl err \<Rightarrow> []
              | Inr extractedData \<Rightarrow> extractedData))"
    by blast
  then have "map ExtractedData.truncate
        (fileLeads sampleEnv [] [] 0 ([sampleCsv, samplePng, sampleNotes] ! 0))
      = (case readFile ([sampleCsv, samplePng, sampleNotes] ! 0) of
           Inl err \<Rightarrow> []
         | Inr (content, mimeType) \<Rightarrow>
             (case gateway sampleEnv 0 content mimeType [] [] of
                Inl err \<Rightarrow> []
              | Inr extractedData \<Rightarrow> extractedData))"
    by auto
  moreover have "readFile sampleCsv = Inr (Some ''Ann,(555) 010-0001;Bob,(555) 010-0002'', ''text/plain'')"
    by (simp add: run_defs sample_defs)
  ultimately have 2: "map ExtractedData.truncate (fileLeads sampleEnv [] [] 0 sampleCsv)
     = [sampleRecord ''Ann'' ''(555) 010-0001'', sampleRecord ''Bob'' ''(555) 010-0002'']"
    by (simp add: sampleEnv_def)
  from T have "newLeadsAccumulator
       (processFiles sampleEnv [] [] [sampleCsv, samplePng, sampleNotes] sampleState)
      = concat (map (\<lambda>i. fileLeads sampleEnv [] [] i ([sampleCsv, samplePng, sampleNotes] ! i))
                  [0..<length [sampleCsv, samplePng, sampleNotes]])"
    by blast
  then have 3: "newLeadsAccumulator
       (processFiles sampleEnv [] [] [sampleCsv, samplePng, sampleNotes] sampleState)
     = fileLeads sampleEnv [] [] 0 sampleCsv @ fileLeads sampleEnv [] [] 1 samplePng
       @ fileLeads sampleEnv [] [] 2 sampleNotes"
    by (simp add: numeral_2_eq_2)
  from 1 2 3 show ?thesis by blast
qed

text \<open>
  Eleven files.
\<close>

theorem processFiles_too_many_witness:
  "state (processFiles sampleEnv [] [] (replicate 11 sampleCsv) sampleState)
     = sampleState\<lparr>errorMsg := Some ''Please upload a maximum of 10 files at a time.''\<rparr>
   \<and> leads (state (processFiles sampleEnv [] [] (replicate 11 sampleCsv) sampleState))
     = leads sampleState
   \<and> trace (processFiles sampleEnv [] [] (replicate 11 sampleCsv) sampleState) = []"
proof -
  have "length (replicate 11 sampleCsv) > 10" by simp
  from processFiles_too_many [OF this] show ?thesis by blast
qed

lemma truncate_processedBatch:
  "map ExtractedData.truncate (processedBatch S B) = map ExtractedData.truncate B"
  by (induction B arbitrary: S) (auto simp: ExtractedData.truncate_def)

lemma fileError_explicit:
  "fileError env senderName companyName k file
     = (case readFile file of
          Inl err \<Rightarrow> [name file @ '': '' @ messageOr err ''Unknown error'']
        | Inr (c, m) \<Rightarrow>
            (case gateway env k c m senderName companyName of
               Inl err \<Rightarrow> [name file @ '': '' @ messageOr err ''Unknown error'']
             | Inr extractedData \<Rightarrow> []))"
  by (simp add: fileError_def processFile_def split: sum.splits prod.splits)

lemma accumulator_candidates:
  assumes "allSettled env files" and "length files \<le> 10"
  shows "map ExtractedData.truncate
           (newLeadsAccumulator (processFiles env senderName companyName files s))
         = concat (map (\<lambda>k. case readFile (files ! k) of
                           Inl err \<Rightarrow> []
                         | Inr (c, m) \<Rightarrow>
                             (case gateway env k c m senderName companyName of
                                Inl err \<Rightarrow> []
                              | Inr extractedData \<Rightarrow> extractedData))
                     [0..<length files])"
  by (simp add: processFiles_accumulator [OF assms] map_concat fileLeads_candidates comp_def)

lemma accumulator_sourceFile:
  assumes "allSettled env files" and "length files \<le> 10"
  shows "map sourceFile
           (newLeadsAccumulator (processFiles env senderName companyName files s))
         = concat (map (\<lambda>k. replicate
                           (length (case readFile (files ! k) of
                                      Inl err \<Rightarrow> []
                                    | Inr (c, m) \<Rightarrow>
                                        (case gateway env k c m senderName companyName of
                                           Inl err \<Rightarrow> []
                                         | Inr extractedData \<Rightarrow> extractedData)))
                           (name (files ! k)))
                     [0..<length files])"
proof -
  have len: "length (fileLeads env senderName companyName k f)
      = length (case readFile f of
                  Inl err \<Rightarrow> []
                | Inr (c, m) \<Rightarrow>
                    (case gateway env k c m senderName companyName of
                       Inl err \<Rightarrow> []
                     | Inr extractedData \<Rightarrow> extractedData))" for k f
    using fileLeads_candidates [of env senderName companyName k f]
    by (metis length_map)
  show ?thesis
    by (simp add: processFiles_accumulator [OF assms] map_concat fileLeads_sourceFile comp_def
        len)
qed


text \<open>
  C4. Whenever the gateway returns at least one record for some decoded file of a batch
  of at most ten files, the run succeeds, whatever the other files do: the new history is
  the processed leads in front of the old history, which is kept whole; the added leads
  carry exactly the records the gateway returned, for every file, in file order and in
  response order, each tagged with the name of its file, so the history grows by exactly
  that many leads and no file loses its records to the failure of another; every file is
  handed to the decoder and every decoded file gets its gateway call; and the per-file
  errors, one entry for each file whose decoding or extraction failed, each starting with
  the name of its file, make up a warning beside the success (no message when there is
  none).
\<close>

theorem processFiles_partial_success:
  assumes "allSettled env files" and "length files \<le> 10"
    and "i < length files"
    and "readFile (files ! i) = Inr (content, mimeType)"
    and "gateway env i content mimeType senderName companyName = Inr records"
    and "records \<noteq> []"
  shows
    "(let r = processFiles env senderName companyName files s;
          candidates = (\<lambda>k. case readFile (files ! k) of
                             Inl err \<Rightarrow> []
                           | Inr (c, m) \<Rightarrow>
                               (case gateway env k c m senderName companyName of
                                  Inl err \<Rightarrow> []
                                | Inr extractedData \<Rightarrow> extractedData));
          failures = (\<lambda>k. case readFile (files ! k) of
                           Inl err \<Rightarrow> [name (files ! k) @ '': '' @ messageOr err ''Unknown error'']
                         | Inr (c, m) \<Rightarrow>
                             (case gateway env k c m senderName companyName of
                                Inl err \<Rightarrow>
                                  [name (files ! k) @ '': '' @ messageOr err ''Unknown error'']
                              | Inr extractedData \<Rightarrow> []))
      in status (state r) = SUCCESS
       \<and> leads (state r)
           = processedBatch (set (map phoneNumber (leads s))) (newLeadsAccumulator r) @ leads s
       \<and> drop (length (newLeadsAccumulator r)) (leads (state r)) = leads s
       \<and> map ExtractedData.truncate (newLeadsAccumulator r)
           = concat (map candidates [0..<length files])
       \<and> map ExtractedData.truncate
             (take (length (concat (map candidates [0..<length files]))) (leads (state r)))
           = concat (map candidates [0..<length files])
       \<and> length (leads (state r))
           = length (concat (map candidates [0..<length files])) + length (leads s)
       \<and> map sourceFile (newLeadsAccumulator r)
           = concat (map (\<lambda>k. replicate (length (candidates k)) (name (files ! k)))
                       [0..<length files])
       \<and> set records \<subseteq> ExtractedData.truncate ` set (leads (state r))
       \<and> fileErrors r = concat (map failures (completionOrder env))
       \<and> errorMsg (state r)
           = (if fileErrors r = [] then None
              else Some (''Processed with some errors: '' @ join '', '' (fileErrors r)))
       \<and> (\<forall>k<length files. \<forall>entry \<in> set (failures k).
             entry \<in> set (fileErrors r) \<and> prefix (name (files ! k) @ '': '') entry)
       \<and> (\<forall>k<length files. Decode (name (files ! k)) \<in> set (trace r))
       \<and> (\<forall>k<length files. \<forall>c m.
             readFile (files ! k) = Inr (c, m) \<longrightarrow>
             GatewayCall k c m senderName companyName \<in> set (trace r)))"
proof -
  let ?r = "processFiles env senderName companyName files s"
  let ?cands = "\<lambda>k. case readFile (files ! k) of
                             Inl err \<Rightarrow> []
                           | Inr (c, m) \<Rightarrow>
                               (case gateway env k c m senderName companyName of
                                  Inl err \<Rightarrow> []
                                | Inr extractedData \<Rightarrow> extractedData)"
  let ?fails = "\<lambda>k. case readFile (files ! k) of
                           Inl err \<Rightarrow> [name (files ! k) @ '': '' @ messageOr err ''Unknown error'']
                         | Inr (c, m) \<Rightarrow>
                             (case gateway env k c m senderName companyName of
                                Inl err \<Rightarrow>
                                  [name (files ! k) @ '': '' @ messageOr err ''Unknown error'']
                              | Inr extractedData \<Rightarrow> [])"
  have fails: "fileError env senderName companyName k (files ! k) = ?fails k" for k
    by (rule fileError_explicit)
  have d: "map ExtractedData.truncate (newLeadsAccumulator ?r)
      = concat (map ?cands [0..<length files])"
    by (rule accumulator_candidates [OF assms(1,2)])
  from assms(4,5) have here: "?cands i = records" by simp
  with assms(3) have "set records \<subseteq> set (concat (map ?cands [0..<length files]))"
    by auto
  with d have inacc: "set records \<subseteq> ExtractedData.truncate ` set (newLeadsAccumulator ?r)"
    by (metis set_map)
  with assms(6) have produced: "newLeadsAccumulator ?r \<noteq> []"
    by (cases records) auto
  note P = processFiles_productive [OF produced]
  from P have a: "status (state ?r) = SUCCESS" by blast
  from P have b: "leads (state ?r)
      = processedBatch (set (map phoneNumber (leads s))) (newLeadsAccumulator ?r) @ leads s"
    by blast
  have c: "drop (length (newLeadsAccumulator ?r)) (leads (state ?r)) = leads s"
    by (simp add: b length_processedBatch)
  from d have len: "length (concat (map ?cands [0..<length files]))
      = length (newLeadsAccumulator ?r)"
    by (metis length_map)
  have e: "map ExtractedData.truncate
      (take (length (concat (map ?cands [0..<length files]))) (leads (state ?r)))
      = concat (map ?cands [0..<length files])"
    by (simp add: len b length_processedBatch truncate_processedBatch d)
  have f: "length (leads (state ?r))
      = length (concat (map ?cands [0..<length files])) + length (leads s)"
    by (simp add: len b length_processedBatch)
  have g: "map sourceFile (newLeadsAccumulator ?r)
      = concat (map (\<lambda>k. replicate (length (?cands k)) (name (files ! k))) [0..<length files])"
    by (rule accumulator_sourceFile [OF assms(1,2)])
  have "ExtractedData.truncate ` set (newLeadsAccumulator ?r)
      \<subseteq> ExtractedData.truncate ` set (leads (state ?r))"
  proof -
    have "ExtractedData.truncate ` set (newLeadsAccumulator ?r)
        = set (map ExtractedData.truncate
                 (processedBatch (set (map phoneNumber (leads s))) (newLeadsAccumulator ?r)))"
      by (simp add: truncate_processedBatch)
    also have "\<dots> \<subseteq> ExtractedData.truncate ` set (leads (state ?r))"
      by (simp add: b image_Un)
    finally show ?thesis .
  qed
  with inacc have h: "set records \<subseteq> ExtractedData.truncate ` set (leads (state ?r))"
    by blast
  from P have i: "fileErrors ?r = concat (map ?fails (completionOrder env))"
    by (simp add: fails)
  from P have j: "errorMsg (state ?r)
      = (if fileErrors ?r = [] then None
         else Some (''Processed with some errors: '' @ join '', '' (fileErrors ?r)))"
    by blast
  from P have "\<forall>k<length files.
      \<forall>entry \<in> set (fileError env senderName companyName k (files ! k)).
        entry \<in> set (fileErrors ?r) \<and> prefix (name (files ! k) @ '': '') entry"
    by blast
  then have k: "\<forall>k<length files. \<forall>entry \<in> set (?fails k).
      entry \<in> set (fileErrors ?r) \<and> prefix (name (files ! k) @ '': '') entry"
    by (simp add: fails)
  from P have l: "\<forall>k<length files. Decode (name (files ! k)) \<in> set (trace ?r)"
    by blast
  from P have m: "\<forall>k<length files. \<forall>c m.
      readFile (files ! k) = Inr (c, m) \<longrightarrow>
      GatewayCall k c m senderName companyName \<in> set (trace ?r)"
    by blast
  from a b c d e f g h i j k l m show ?thesis
    unfolding Let_def by blast
qed


text \<open>
  C3. For every batch of at most ten files in which no file yields a record, once every
  callback has finished: the history is unchanged and the status is the error status; when
  no file failed the message is the one for no valid leads; when one or more files failed
  the message is the extraction failure followed by the per-file entries, in the order in
  which the callbacks finished, joined by \<^verbatim>\<open> | \<close>. The batch has at least one file:
  \<^verbatim>\<open>handleDrop\<close> and \<^verbatim>\<open>handleInputChange\<close>, the only callers, pass a file list
  only when its length is positive.
\<close>

theorem processFiles_no_leads:
  assumes "files \<noteq> []" and "length files \<le> 10" and "allSettled env files"
    and "\<forall>k<length files.
           (case readFile (files ! k) of
              Inl err \<Rightarrow> []
            | Inr (c, m) \<Rightarrow>
                (case gateway env k c m senderName companyName of
                   Inl err \<Rightarrow> []
                 | Inr extractedData \<Rightarrow> extractedData)) = []"
  shows
    "(let r = processFiles env senderName companyName files s;
          failures = (\<lambda>k. case readFile (files ! k) of
                           Inl err \<Rightarrow> [name (files ! k) @ '': '' @ messageOr err ''Unknown error'']
                         | Inr (c, m) \<Rightarrow>
                             (case gateway env k c m senderName companyName of
                                Inl err \<Rightarrow>
                                  [name (files ! k) @ '': '' @ messageOr err ''Unknown error'']
                              | Inr extractedData \<Rightarrow> []))
      in leads (state r) = leads s
       \<and> status (state r) = ERROR
       \<and> newLeadsAccumulator r = []
       \<and> fileErrors r = concat (map failures (completionOrder env))
       \<and> (fileErrors r = []) = (\<forall>k<length files. failures k = [])
       \<and> (fileErrors r = [] \<longrightarrow>
            errorMsg (state r) = Some ''No valid leads found in the uploaded files.'')
       \<and> (fileErrors r \<noteq> [] \<longrightarrow>
            errorMsg (state r)
              = Some (''Failed to extract leads from uploaded files. Errors: ''
                      @ join '' | '' (fileErrors r))))"
proof -
  let ?r = "processFiles env senderName companyName files s"
  let ?fails = "\<lambda>k. case readFile (files ! k) of
                           Inl err \<Rightarrow> [name (files ! k) @ '': '' @ messageOr err ''Unknown error'']
                         | Inr (c, m) \<Rightarrow>
                             (case gateway env k c m senderName companyName of
                                Inl err \<Rightarrow>
                                  [name (files ! k) @ '': '' @ messageOr err ''Unknown error'']
                              | Inr extractedData \<Rightarrow> [])"
  have fails: "fileError env senderName companyName k (files ! k) = ?fails k" for k
    by (rule fileError_explicit)
  from assms(4) have "concat (map (\<lambda>k. case readFile (files ! k) of
                           Inl err \<Rightarrow> []
                         | Inr (c, m) \<Rightarrow>
                             (case gateway env k c m senderName companyName of
                                Inl err \<Rightarrow> []
                              | Inr extractedData \<Rightarrow> extractedData))
                     [0..<length files]) = []"
    by simp
  with accumulator_candidates [OF assms(3,2), of senderName companyName s]
  have acc: "newLeadsAccumulator ?r = []" by simp
  note P = processFiles_unproductive [OF assms(1,2,3) acc]
  from P have a: "leads (state ?r) = leads s" and b: "status (state ?r) = ERROR"
    by blast+
  from P have d: "fileErrors ?r = concat (map ?fails (completionOrder env))"
    by (simp add: fails)
  from assms(3) have order: "set (completionOrder env) = {0..<length files}"
    by (simp add: allSettled_def sorted_upt_set)
  have e: "(fileErrors ?r = []) = (\<forall>k<length files. ?fails k = [])"
    unfolding d using order by auto
  from P have f: "fileErrors ?r = [] \<longrightarrow>
      errorMsg (state ?r) = Some ''No valid leads found in the uploaded files.''"
    by blast
  from P have g: "fileErrors ?r \<noteq> [] \<longrightarrow>
      errorMsg (state ?r)
        = Some (''Failed to extract leads from uploaded files. Errors: ''
                @ join '' | '' (fileErrors ?r))"
    by blast
  from a b acc d e f g show ?thesis
    unfolding Let_def by blast
qed

text \<open>
  The first guard of \<^verbatim>\<open>processFiles\<close>: on an empty file list it returns at once, with
  the state as it was.
\<close>

lemma processFiles_empty:
  "processFiles env senderName companyName [] s
     = \<lparr>state = s, newLeadsAccumulator = [], fileErrors = [], trace = []\<rparr>"
  by (simp add: processFiles_def)

lemma sample_none_settled: "allSettled (sampleEnv\<lparr>completionOrder := [0]\<rparr>) [sampleNotes]"
  by (simp add: run_defs sample_defs)

lemma sample_none_errs:
  "fileErrors
     (processFiles (sampleEnv\<lparr>completionOrder := [0]\<rparr>) [] [] [sampleNotes] sampleState) = []"
  by (simp add: run_defs sample_defs)

lemma sample_failed_settled:
  "allSettled (sampleEnv\<lparr>completionOrder := [0, 1]\<rparr>) [samplePdf, samplePng]"
  by (simp add: run_defs sample_defs)

text \<open>
  One file that yields nothing, without error; and a PDF, rejected at once, with a PNG
  whose extraction fails.
\<close>

theorem processFiles_no_leads_witness:
  "errorMsg (state
     (processFiles (sampleEnv\<lparr>completionOrder := [0]\<rparr>) [] [] [sampleNotes] sampleState))
     = Some ''No valid leads found in the uploaded files.''
   \<and> leads (state
     (processFiles (sampleEnv\<lparr>completionOrder := [0]\<rparr>) [] [] [sampleNotes] sampleState))
     = leads sampleState
   \<and> errorMsg (state
     (processFiles (sampleEnv\<lparr>completionOrder := [0, 1]\<rparr>) [] [] [samplePdf, samplePng]
        sampleState))
     = Some (''Failed to extract leads from uploaded files. Errors: ''
             @ ''drivers.pdf: Unsupported file type: drivers.pdf | drivers.png: ''
             @ extractionFailed)
   \<and> status (state
     (processFiles (sampleEnv\<lparr>completionOrder := [0, 1]\<rparr>) [] [] [samplePdf, samplePng]
        sampleState)) = ERROR
   \<and> leads (state
     (processFiles (sampleEnv\<lparr>completionOrder := [0, 1]\<rparr>) [] [] [samplePdf, samplePng]
        sampleState)) = leads sampleState"
proof -
  let ?r1 = "processFiles (sampleEnv\<lparr>completionOrder := [0]\<rparr>) [] [] [sampleNotes] sampleState"
  let ?r2 = "processFiles (sampleEnv\<lparr>completionOrder := [0, 1]\<rparr>) [] []
               [samplePdf, samplePng] sampleState"
  have ne1: "[sampleNotes] \<noteq> []" and le1: "length [sampleNotes] \<le> 10" by simp_all
  have ne2: "[samplePdf, samplePng] \<noteq> []" and le2: "length [samplePdf, samplePng] \<le> 10"
    by simp_all
  have none1: "\<forall>k<length [sampleNotes].
           (case readFile ([sampleNotes] ! k) of
              Inl err \<Rightarrow> []
            | Inr (c, m) \<Rightarrow>
                (case gateway (sampleEnv\<lparr>completionOrder := [0]\<rparr>) k c m [] [] of
                   Inl err \<Rightarrow> []
                 | Inr extractedData \<Rightarrow> extractedData)) = []"
    by (simp add: run_defs sample_defs)
  have none2: "\<forall>k<length [samplePdf, samplePng].
           (case readFile ([samplePdf, samplePng] ! k) of
              Inl err \<Rightarrow> []
            | Inr (c, m) \<Rightarrow>
                (case gateway (sampleEnv\<lparr>completionOrder := [0, 1]\<rparr>) k c m [] [] of
                   Inl err \<Rightarrow> []
                 | Inr extractedData \<Rightarrow> extractedData)) = []"
    by (simp add: run_defs sample_defs less_Suc_eq)
  note A = processFiles_no_leads [OF ne1 le1 sample_none_settled none1, of sampleState,
      unfolded Let_def]
  note B = processFiles_no_leads [OF ne2 le2 sample_failed_settled none2, of sampleState,
      unfolded Let_def]
  have errs1: "fileErrors ?r1 = []"
    by (rule sample_none_errs)
  have errs2: "fileErrors ?r2
      = [''drivers.pdf: Unsupported file type: drivers.pdf'',
         ''drivers.png: '' @ extractionFailed]"
    by (simp add: run_defs sample_defs extractionFailed_def)
  from A errs1 have 1: "errorMsg (state ?r1) = Some ''No valid leads found in the uploaded files.''"
    by blast
  from A have 2: "leads (state ?r1) = leads sampleState" by blast
  from errs2 have "fileErrors ?r2 \<noteq> []" by simp
  with B have "errorMsg (state ?r2)
      = Some (''Failed to extract leads from uploaded files. Errors: ''
              @ join '' | '' (fileErrors ?r2))"
    by blast
  with errs2 have 3: "errorMsg (state ?r2)
     = Some (''Failed to extract leads from uploaded files. Errors: ''
             @ ''drivers.pdf: Unsupported file type: drivers.pdf | drivers.png: ''
             @ extractionFailed)"
    by simp
  from B have 4: "status (state ?r2) = ERROR" and 5: "leads (state ?r2) = leads sampleState"
    by blast+
  from 1 2 3 4 5 show ?thesis by blast
qed


text \<open>
  Three files, finishing in the order third, first, second: the CSV yields Ann and Bob, the
  extraction of the PNG fails, the notes yield nothing. The run succeeds, the history of
  one lead grows to three, the two new leads carry the records of Ann and Bob, and the
  warning names the PNG.
\<close>

theorem processFiles_partial_success_witness:
  "status (state (processFiles sampleEnv [] [] [sampleCsv, samplePng, sampleNotes] sampleState))
     = SUCCESS
   \<and> length (leads (state
        (processFiles sampleEnv [] [] [sampleCsv, samplePng, sampleNotes] sampleState))) = 3
   \<and> map ExtractedData.truncate (take 2 (leads (state
        (processFiles sampleEnv [] [] [sampleCsv, samplePng, sampleNotes] sampleState))))
     = [sampleRecord ''Ann'' ''(555) 010-0001'', sampleRecord ''Bob'' ''(555) 010-0002'']
   \<and> drop 2 (leads (state
        (processFiles sampleEnv [] [] [sampleCsv, samplePng, sampleNotes] sampleState)))
     = leads sampleState
   \<and> errorMsg (state
        (processFiles sampleEnv [] [] [sampleCsv, samplePng, sampleNotes] sampleState))
     = Some (''Processed with some errors: drivers.png: '' @ extractionFailed)
   \<and> Decode ''notes.txt''
       \<in> set (trace
              (processFiles sampleEnv [] [] [sampleCsv, samplePng, sampleNotes] sampleState))
   \<and> GatewayCall 2 (Some ''office line only'') ''text/plain'' [] []
       \<in> set (trace
              (processFiles sampleEnv [] [] [sampleCsv, samplePng, sampleNotes] sampleState))"
proof -
  let ?fs = "[sampleCsv, samplePng, sampleNotes]"
  let ?r = "processFiles sampleEnv [] [] ?fs sampleState"
  let ?c = "\<lambda>k. case readFile (?fs ! k) of
                     Inl err \<Rightarrow> []
                   | Inr (c, m) \<Rightarrow>
                       (case gateway sampleEnv k c m [] [] of
                          Inl err \<Rightarrow> []
                        | Inr extractedData \<Rightarrow> extractedData)"
  have le: "length ?fs \<le> 10" and i: "0 < length ?fs" by simp_all
  have read: "readFile (?fs ! 0)
      = Inr (Some ''Ann,(555) 010-0001;Bob,(555) 010-0002'', ''text/plain'')"
    by (simp add: run_defs sample_defs)
  have gw: "gateway sampleEnv 0 (Some ''Ann,(555) 010-0001;Bob,(555) 010-0002'')
        ''text/plain'' [] []
      = Inr [sampleRecord ''Ann'' ''(555) 010-0001'', sampleRecord ''Bob'' ''(555) 010-0002'']"
    by (simp add: sampleEnv_def)
  have ne: "[sampleRecord ''Ann'' ''(555) 010-0001'', sampleRecord ''Bob'' ''(555) 010-0002'']
      \<noteq> []"
    by simp
  note T = processFiles_partial_success [OF sample_settled le i read gw ne, of sampleState,
      unfolded Let_def]
  have cands: "concat (map ?c [0..<length ?fs])
      = [sampleRecord ''Ann'' ''(555) 010-0001'', sampleRecord ''Bob'' ''(555) 010-0002'']"
    by (simp add: run_defs sample_defs)
  have old: "length (leads sampleState) = 1" by (simp add: sampleState_def)
  from T have 1: "status (state ?r) = SUCCESS" by blast
  from T have "length (leads (state ?r))
      = length (concat (map ?c [0..<length ?fs])) + length (leads sampleState)"
    by blast
  with cands old have 2: "length (leads (state ?r)) = 3" by simp
  from T have "map ExtractedData.truncate
      (take (length (concat (map ?c [0..<length ?fs]))) (leads (state ?r)))
      = concat (map ?c [0..<length ?fs])"
    by blast
  with cands have 3: "map ExtractedData.truncate (take 2 (leads (state ?r)))
      = [sampleRecord ''Ann'' ''(555) 010-0001'', sampleRecord ''Bob'' ''(555) 010-0002'']"
    by (simp add: numeral_2_eq_2)
  from T have "drop (length (newLeadsAccumulator ?r)) (leads (state ?r)) = leads sampleState"
    by blast
  then have 4: "drop 2 (leads (state ?r)) = leads sampleState"
    by (simp add: sample_acc numeral_2_eq_2)
  from T have "errorMsg (state ?r)
        = (if fileErrors ?r = [] then None
           else Some (''Processed with some errors: '' @ join '', '' (fileErrors ?r)))"
    by blast
  then have 5: "errorMsg (state ?r)
      = Some (''Processed with some errors: drivers.png: '' @ extractionFailed)"
    by (simp add: sample_errs)
  from T have "\<forall>k<length ?fs. Decode (name (?fs ! k)) \<in> set (trace ?r)"
    by blast
  then have "Decode (name (?fs ! 2)) \<in> set (trace ?r)"
    by auto
  then have 6: "Decode ''notes.txt'' \<in> set (trace ?r)"
    by (simp add: sampleNotes_def)
  have read2: "readFile (?fs ! 2) = Inr (Some ''office line only'', ''text/plain'')"
    by (simp add: run_defs sample_defs)
  from T have "\<forall>k<length ?fs. \<forall>c m.
          readFile (?fs ! k) = Inr (c, m) \<longrightarrow>
          GatewayCall k c m [] [] \<in> set (trace ?r)"
    by blast
  with read2 have 7: "GatewayCall 2 (Some ''office line only'') ''text/plain'' [] []
      \<in> set (trace ?r)"
    by auto
  from 1 2 3 4 5 6 7 show ?thesis by blast
qed

section \<open>Determinism of the merge\<close>

lemma processedBatch_map_erase:
  "processedBatch S (map (\<lambda>l. l\<lparr>id' := a, extractedAt := b\<rparr>) B)
     = map (\<lambda>l. l\<lparr>id' := a, extractedAt := b\<rparr>) (processedBatch S B)"
  by (induction B arbitrary: S) auto

lemma mergeLeads_erase:
  assumes "map (\<lambda>l. l\<lparr>id' := a, extractedAt := b\<rparr>) B1
         = map (\<lambda>l. l\<lparr>id' := a, extractedAt := b\<rparr>) B2"
  shows "map (\<lambda>l. l\<lparr>id' := a, extractedAt := b\<rparr>) (mergeLeads H B1)
       = map (\<lambda>l. l\<lparr>id' := a, extractedAt := b\<rparr>) (mergeLeads H B2)"
proof -
  have "map (\<lambda>l. l\<lparr>id' := a, extractedAt := b\<rparr>) (processedBatch S B1)
      = map (\<lambda>l. l\<lparr>id' := a, extractedAt := b\<rparr>) (processedBatch S B2)" for S
    using assms processedBatch_map_erase [where S=S and a=a and b=b and B=B1]
      processedBatch_map_erase [where S=S and a=a and b=b and B=B2]
    by simp
  then show ?thesis by (simp add: mergeLeads_def)
qed

lemma erase_enumerate:
  "map ((\<lambda>l. l\<lparr>id' := a, extractedAt := b\<rparr>) \<circ> (\<lambda>(j, item). toLead (u j) fileName (t j) item))
     (enumerate k xs) = map (toLead a fileName b) xs"
  by (induction xs arbitrary: k) (simp_all add: toLead_def)

lemma fileLeads_erase:
  assumes "gateway env1 = gateway env2"
  shows "map (\<lambda>l. l\<lparr>id' := a, extractedAt := b\<rparr>) (fileLeads env1 senderName companyName i file)
       = map (\<lambda>l. l\<lparr>id' := a, extractedAt := b\<rparr>) (fileLeads env2 senderName companyName i file)"
  using assms
  by (simp add: fileLeads_def processFile_def erase_enumerate split: sum.splits prod.splits)

lemma processFiles_leads:
  assumes "files \<noteq> []" and "length files \<le> 10" and "allSettled env files"
  shows "leads (state (processFiles env senderName companyName files s))
       = (if newLeadsAccumulator (processFiles env senderName companyName files s) = []
          then leads s
          else mergeLeads (leads s)
                 (newLeadsAccumulator (processFiles env senderName companyName files s)))"
  using assms by (simp add: processFiles_def Let_def del: concat_eq_Nil_conv)

lemma processFiles_leads_unsettled:
  assumes "files = [] \<or> length files > 10"
  shows "leads (state (processFiles env senderName companyName files s)) = leads s"
  using assms by (auto simp: processFiles_def)

text \<open>
  C9, amended. The merge is deterministic, ids and capture timestamps aside: two batches
  that are equal once \<open>id'\<close> and \<open>extractedAt\<close> are set aside, merged into the same
  history, give histories equal lead by lead and in the same order once both fields are
  set aside; and two runs over the same files, state and gateway answers, whatever ids and
  timestamps they draw and in whatever order their callbacks finish, end with such
  histories. Neither field has any effect on the order or on the duplicate flags.
\<close>

theorem mergeLeads_ids_timestamps_aside:
  "(map (\<lambda>l. l\<lparr>id' := [], extractedAt := []\<rparr>) B1
      = map (\<lambda>l. l\<lparr>id' := [], extractedAt := []\<rparr>) B2 \<longrightarrow>
    map (\<lambda>l. l\<lparr>id' := [], extractedAt := []\<rparr>) (mergeLeads H B1)
      = map (\<lambda>l. l\<lparr>id' := [], extractedAt := []\<rparr>) (mergeLeads H B2))
   \<and> (gateway env1 = gateway env2 \<and> allSettled env1 files \<and> allSettled env2 files \<longrightarrow>
      map (\<lambda>l. l\<lparr>id' := [], extractedAt := []\<rparr>)
        (leads (state (processFiles env1 senderName companyName files s)))
      = map (\<lambda>l. l\<lparr>id' := [], extractedAt := []\<rparr>)
        (leads (state (processFiles env2 senderName companyName files s))))"
proof (intro conjI impI)
  assume "map (\<lambda>l. l\<lparr>id' := [], extractedAt := []\<rparr>) B1
      = map (\<lambda>l. l\<lparr>id' := [], extractedAt := []\<rparr>) B2"
  then show "map (\<lambda>l. l\<lparr>id' := [], extractedAt := []\<rparr>) (mergeLeads H B1)
      = map (\<lambda>l. l\<lparr>id' := [], extractedAt := []\<rparr>) (mergeLeads H B2)"
    by (rule mergeLeads_erase)
next
  let ?e = "\<lambda>l::Lead. l\<lparr>id' := [], extractedAt := []\<rparr>"
  let ?r1 = "processFiles env1 senderName companyName files s"
  let ?r2 = "processFiles env2 senderName companyName files s"
  assume "gateway env1 = gateway env2 \<and> allSettled env1 files \<and> allSettled env2 files"
  then have gw: "gateway env1 = gateway env2"
    and s1: "allSettled env1 files" and s2: "allSettled env2 files"
    by simp_all
  show "map ?e (leads (state ?r1)) = map ?e (leads (state ?r2))"
  proof (cases "files = [] \<or> length files > 10")
    case True
    then show ?thesis by (simp add: processFiles_leads_unsettled)
  next
    case False
    then have ne: "files \<noteq> []" and le: "length files \<le> 10" by simp_all
    have acc: "map ?e (newLeadsAccumulator ?r1) = map ?e (newLeadsAccumulator ?r2)"
      by (simp add: processFiles_accumulator [OF s1 le] processFiles_accumulator [OF s2 le]
          map_concat fileLeads_erase [OF gw] cong: map_cong)
    then have "length (map ?e (newLeadsAccumulator ?r1)) = length (map ?e (newLeadsAccumulator ?r2))"
      by simp
    then have empty: "(newLeadsAccumulator ?r1 = []) = (newLeadsAccumulator ?r2 = [])"
      by auto
    show ?thesis
      using empty mergeLeads_erase [OF acc, of "leads s"]
      by (simp add: processFiles_leads [OF ne le s1] processFiles_leads [OF ne le s2])
  qed
qed


text \<open>
  C9, as stated, fails: two runs over the same file, state and gateway answer, the second
  reading the clock a second later, end with histories that differ once the ids are set
  aside, because each lead carries the \<^verbatim>\<open>new Date().toISOString()\<close> of its own run.
\<close>

theorem mergeLeads_ids_aside_counterexample:
  "gateway (sampleEnv\<lparr>completionOrder := [0]\<rparr>)
     = gateway (sampleEnv\<lparr>completionOrder := [0],
                          nowISO := (\<lambda>i j. ''2024-05-01T10:00:01.000Z'')\<rparr>)
   \<and> map (\<lambda>l. l\<lparr>id' := []\<rparr>)
       (leads (state (processFiles (sampleEnv\<lparr>completionOrder := [0]\<rparr>) [] []
                        [sampleCsv] sampleState)))
     \<noteq> map (\<lambda>l. l\<lparr>id' := []\<rparr>)
       (leads (state (processFiles
                        (sampleEnv\<lparr>completionOrder := [0],
                                   nowISO := (\<lambda>i j. ''2024-05-01T10:00:01.000Z'')\<rparr>) [] []
                        [sampleCsv] sampleState)))"
  by (simp add: processFiles_def awaitAll_def settle_def processFile_def readFile_def
      allSettled_def startsWith_def endsWith_def suffix_to_prefix Let_def enumerate_eq_zip
      mergeLeads_def toLead_def sampleRecord_def sampleLead_def
      sampleEnv_def sampleState_def sampleCsv_def)

text \<open>
  The same two runs, and two batches with different ids and timestamps, agree once both
  fields are set aside.
\<close>

theorem mergeLeads_ids_timestamps_aside_witness:
  "map (\<lambda>l. l\<lparr>id' := [], extractedAt := []\<rparr>)
     (mergeLeads [sampleLead ''u0'' ''Ann'' ''(555) 010-0001'']
        [toLead ''u1'' ''drivers.csv'' ''2024-05-01T10:00:00.000Z''
           (sampleRecord ''Ann'' ''(555) 010-0001''),
         toLead ''u2'' ''drivers.csv'' ''2024-05-01T10:00:00.000Z''
           (sampleRecord ''Bob'' ''(555) 010-0002'')])
   = map (\<lambda>l. l\<lparr>id' := [], extractedAt := []\<rparr>)
     (mergeLeads [sampleLead ''u0'' ''Ann'' ''(555) 010-0001'']
        [toLead ''u7'' ''drivers.csv'' ''2024-05-01T10:00:01.000Z''
           (sampleRecord ''Ann'' ''(555) 010-0001''),
         toLead ''u8'' ''drivers.csv'' ''2024-05-01T10:00:01.000Z''
           (sampleRecord ''Bob'' ''(555) 010-0002'')])
   \<and> map (\<lambda>l. l\<lparr>id' := [], extractedAt := []\<rparr>)
       (leads (state (processFiles (sampleEnv\<lparr>completionOrder := [0]\<rparr>) [] []
                        [sampleCsv] sampleState)))
     = map (\<lambda>l. l\<lparr>id' := [], extractedAt := []\<rparr>)
       (leads (state (processFiles
                        (sampleEnv\<lparr>completionOrder := [0],
                                   nowISO := (\<lambda>i j. ''2024-05-01T10:00:01.000Z'')\<rparr>) [] []
                        [sampleCsv] sampleState)))"
proof -
  have batches: "map (\<lambda>l. l\<lparr>id' := [], extractedAt := []\<rparr>)
        [toLead ''u1'' ''drivers.csv'' ''2024-05-01T10:00:00.000Z''
           (sampleRecord ''Ann'' ''(555) 010-0001''),
         toLead ''u2'' ''drivers.csv'' ''2024-05-01T10:00:00.000Z''
           (sampleRecord ''Bob'' ''(555) 010-0002'')]
     = map (\<lambda>l. l\<lparr>id' := [], extractedAt := []\<rparr>)
        [toLead ''u7'' ''drivers.csv'' ''2024-05-01T10:00:01.000Z''
           (sampleRecord ''Ann'' ''(555) 010-0001''),
         toLead ''u8'' ''drivers.csv'' ''2024-05-01T10:00:01.000Z''
           (sampleRecord ''Bob'' ''(555) 010-0002'')]"
    by (simp add: toLead_def)
  have runs: "gateway (sampleEnv\<lparr>completionOrder := [0]\<rparr>)
     = gateway (sampleEnv\<lparr>completionOrder := [0],
                          nowISO := (\<lambda>i j. ''2024-05-01T10:00:01.000Z'')\<rparr>)
     \<and> allSettled (sampleEnv\<lparr>completionOrder := [0]\<rparr>) [sampleCsv]
     \<and> allSettled (sampleEnv\<lparr>completionOrder := [0],
                          nowISO := (\<lambda>i j. ''2024-05-01T10:00:01.000Z'')\<rparr>) [sampleCsv]"
    by (simp add: allSettled_def)
  note T = mergeLeads_ids_timestamps_aside
    [where ?B1.0 = "[toLead ''u1'' ''drivers.csv'' ''2024-05-01T10:00:00.000Z''
           (sampleRecord ''Ann'' ''(555) 010-0001''),
         toLead ''u2'' ''drivers.csv'' ''2024-05-01T10:00:00.000Z''
           (sampleRecord ''Bob'' ''(555) 010-0002'')]"
      and ?B2.0 = "[toLead ''u7'' ''drivers.csv'' ''2024-05-01T10:00:01.000Z''
           (sampleRecord ''Ann'' ''(555) 010-0001''),
         toLead ''u8'' ''drivers.csv'' ''2024-05-01T10:00:01.000Z''
           (sampleRecord ''Bob'' ''(555) 010-0002'')]"
      and H = "[sampleLead ''u0'' ''Ann'' ''(555) 010-0001'']"
      and ?env1.0 = "sampleEnv\<lparr>completionOrder := [0]\<rparr>"
      and ?env2.0 = "sampleEnv\<lparr>completionOrder := [0],
                          nowISO := (\<lambda>i j. ''2024-05-01T10:00:01.000Z'')\<rparr>"
      and files = "[sampleCsv]" and senderName = "[]" and companyName = "[]"
      and s = sampleState]
  from T batches runs show ?thesis by blast
qed

end
